theory Spec2Isabelle
  imports Complex_Main
begin

section \<open>Cellular-automaton traffic model: data model\<close>

text \<open>
  A road cell as the class \<^verbatim>\<open>Cell\<close> of \<^verbatim>\<open>Project2.py\<close> has it: an integer
  \<^verbatim>\<open>state\<close> (1 for a car, 0 for no car) and an integer \<^verbatim>\<open>velocity\<close> (-1 is the
  default of a cell without a car). Python integers are unbounded, hence \<^typ>\<open>int\<close>.
\<close>

record Cell =
  state :: int
  velocity :: int

text \<open>The exceptions that the modelled functions can raise.\<close>

datatype error = TypeError | IndexError | ZeroDivisionError

text \<open>What \<^verbatim>\<open>print\<close> writes in the single-lane move phase: \<^verbatim>\<open>Collision at <cell>\<close>.\<close>

datatype message = Collision_at int

text \<open>Python's \<^verbatim>\<open>a % b\<close> on integers: it raises for a zero divisor, and the result has
  the sign of the divisor, as \<^term>\<open>(mod)\<close> on \<^typ>\<open>int\<close> has.\<close>

definition py_mod :: "int \<Rightarrow> int \<Rightarrow> error + int" where
  "py_mod a b = (if b = 0 then Inl ZeroDivisionError else Inr (a mod b))"

text \<open>Python's list subscript: a negative index counts from the end, and an index out of
  range raises. \<open>py_index n i\<close> is the position that index \<open>i\<close> denotes in a list of
  length \<open>n\<close>.\<close>

definition py_index :: "nat \<Rightarrow> int \<Rightarrow> error + nat" where
  "py_index n i =
     (let j = (if i < 0 then int n + i else i)
      in if 0 \<le> j \<and> j < int n then Inr (nat j) else Inl IndexError)"

definition py_get :: "'a list \<Rightarrow> int \<Rightarrow> error + 'a" where
  "py_get xs i = (case py_index (length xs) i of Inl e \<Rightarrow> Inl e | Inr k \<Rightarrow> Inr (xs ! k))"

text \<open>The random source: \<open>rnd k\<close> is the value that the \<open>k\<close>-th call of
  \<^verbatim>\<open>random.random()\<close> returns, a number in \<open>[0, 1)\<close>; the functions that draw
  thread the number of calls made so far.\<close>

type_synonym random_source = "nat \<Rightarrow> real"

definition empty_cell :: Cell where
  "empty_cell = \<lparr>state = 0, velocity = - 1\<rparr>"

definition car :: "int \<Rightarrow> Cell" where
  "car v = \<lparr>state = 1, velocity = v\<rparr>"

section \<open>Sequencing with exceptions\<close>

text \<open>A call that raises ends the caller too: \<open>bind_err\<close> passes an error on, and
  \<open>for_each\<close> is a \<^verbatim>\<open>for\<close> loop whose body may raise.\<close>

fun bind_err :: "error + 'a \<Rightarrow> ('a \<Rightarrow> error + 'b) \<Rightarrow> error + 'b" where
  "bind_err (Inl e) f = Inl e"
| "bind_err (Inr x) f = f x"

fun for_each :: "('i \<Rightarrow> 's \<Rightarrow> error + 's) \<Rightarrow> 'i list \<Rightarrow> 's \<Rightarrow> error + 's" where
  "for_each body [] s = Inr s"
| "for_each body (i # rest) s = bind_err (body i s) (for_each body rest)"

section \<open>The single-lane model (sections 1.1 and 1.2 of the notebook)\<close>

text \<open>\<^verbatim>\<open>distance(cells, index, num_cells)\<close>: the loop over \<^verbatim>\<open>range(1, len(cells))\<close>
  returns \<^verbatim>\<open>i - 1\<close> at the first car; when it ends without one the function falls
  through, which in Python returns \<^verbatim>\<open>None\<close>.\<close>

fun distance_loop :: "Cell list \<Rightarrow> nat \<Rightarrow> int \<Rightarrow> nat list \<Rightarrow> error + int option" where
  "distance_loop cells index num_cells [] = Inr None"
| "distance_loop cells index num_cells (i # rest) =
     bind_err (py_mod (int i + int index) num_cells) (\<lambda>k.
     bind_err (py_get cells k) (\<lambda>next_cell.
       if state next_cell = 1 then Inr (Some (int i - 1))
       else distance_loop cells index num_cells rest))"

definition distance :: "Cell list \<Rightarrow> nat \<Rightarrow> int \<Rightarrow> error + int option" where
  "distance cells index num_cells = distance_loop cells index num_cells [1..<length cells]"

definition accelerate :: "Cell \<Rightarrow> int \<Rightarrow> Cell" where
  "accelerate cell max_vel = cell\<lparr>velocity := min (velocity cell + 1) max_vel\<rparr>"

text \<open>\<^verbatim>\<open>decelerate(cell, next_distance)\<close>: comparing an integer with \<^verbatim>\<open>None\<close>
  raises \<^verbatim>\<open>TypeError\<close>.\<close>

definition decelerate :: "Cell \<Rightarrow> int option \<Rightarrow> error + Cell" where
  "decelerate cell next_distance =
     (case next_distance of
        None \<Rightarrow> Inl TypeError
      | Some d \<Rightarrow> Inr (if velocity cell > d then cell\<lparr>velocity := d\<rparr> else cell))"

text \<open>\<^verbatim>\<open>randomize(cell, p)\<close>, given the draw that \<^verbatim>\<open>random.random()\<close> returned.\<close>

definition randomize :: "Cell \<Rightarrow> real \<Rightarrow> real \<Rightarrow> Cell" where
  "randomize cell p draw =
     (if draw \<le> p then cell\<lparr>velocity := max (velocity cell - 1) 0\<rparr> else cell)"

text \<open>\<^verbatim>\<open>move(cells, num_cells)\<close> of the single-lane model. The loop runs over a deep copy
  of the lane and writes to the live lane; a target cell that holds a car in the live
  lane and is not the source only prints a line. \<open>move_step\<close> is the loop body for one
  pair of \<^verbatim>\<open>enumerate(cells_copy)\<close>.\<close>

definition move_step :: "int \<Rightarrow> nat \<times> Cell \<Rightarrow> Cell list \<times> message list
    \<Rightarrow> error + Cell list \<times> message list" where
  "move_step num_cells ic s =
     (case ic of (index, cell) \<Rightarrow> case s of (cells, out) \<Rightarrow>
        if state cell = 1 then
          bind_err (py_mod (int index + velocity cell) num_cells) (\<lambda>next_cell.
          bind_err (py_index (length cells) next_cell) (\<lambda>nc.
            Inr ((cells[index := empty_cell])[nc := car (velocity cell)],
                 if state (cells ! nc) = 1 \<and> int index \<noteq> next_cell
                 then out @ [Collision_at next_cell] else out)))
        else Inr (cells, out))"

definition move :: "Cell list \<Rightarrow> int \<Rightarrow> error + Cell list \<times> message list" where
  "move cells num_cells = for_each (move_step num_cells) (enumerate 0 cells) (cells, [])"

text \<open>\<^verbatim>\<open>update(cells, num_cells, max_vel, p)\<close> of section 1.2: the loop over the live
  lane, then the move phase. The state of the loop is the lane and the number of draws
  made; the result adds what was printed.\<close>

definition update_step :: "int \<Rightarrow> int \<Rightarrow> real \<Rightarrow> random_source \<Rightarrow> nat \<Rightarrow> Cell list \<times> nat
    \<Rightarrow> error + Cell list \<times> nat" where
  "update_step num_cells max_vel p rnd index s =
     (case s of (cells, k) \<Rightarrow>
        if state (cells ! index) = 1 then
          bind_err (distance cells index num_cells) (\<lambda>next_distance.
          bind_err (decelerate (accelerate (cells ! index) max_vel) next_distance) (\<lambda>cell.
            Inr (cells[index := randomize cell p (rnd k)], Suc k)))
        else Inr (cells, k))"

definition update :: "Cell list \<Rightarrow> int \<Rightarrow> int \<Rightarrow> real \<Rightarrow> random_source \<Rightarrow> nat
    \<Rightarrow> error + Cell list \<times> message list \<times> nat" where
  "update cells num_cells max_vel p rnd k =
     bind_err (for_each (update_step num_cells max_vel p rnd) [0..<length cells] (cells, k))
       (\<lambda>(cells', k').
     bind_err (move cells' num_cells) (\<lambda>(cells'', out). Inr (cells'', out, k')))"

section \<open>The two-lane model (section 1.4 of the notebook)\<close>

text \<open>The road is the list of its two lanes. \<^verbatim>\<open>distance(cells, curr_cells, index, num_cells,
  curr_lane, intended_lane, direction)\<close> scans the current lane or the intended one; both
  loops run over \<^verbatim>\<open>range(1, len(curr_cells))\<close>, and the function returns
  \<^verbatim>\<open>num_cells\<close> when a loop ends without a car.\<close>

fun distance2_same :: "Cell list \<Rightarrow> nat \<Rightarrow> int \<Rightarrow> int \<Rightarrow> nat list \<Rightarrow> error + int option" where
  "distance2_same curr_cells index num_cells direction [] = Inr None"
| "distance2_same curr_cells index num_cells direction (i # rest) =
     bind_err (py_mod (direction * int i + int index) num_cells) (\<lambda>k.
     bind_err (py_get curr_cells k) (\<lambda>next_cell.
       if state next_cell = 1 then Inr (Some (int i - 1))
       else distance2_same curr_cells index num_cells direction rest))"

fun distance2_other :: "Cell list list \<Rightarrow> nat \<Rightarrow> nat \<Rightarrow> int \<Rightarrow> int \<Rightarrow> nat list
    \<Rightarrow> error + int option" where
  "distance2_other cells intended_lane index num_cells direction [] = Inr None"
| "distance2_other cells intended_lane index num_cells direction (i # rest) =
     bind_err (py_get cells (int intended_lane)) (\<lambda>other_lane.
     bind_err (py_mod (direction * int i + int index) num_cells) (\<lambda>k.
     bind_err (py_get other_lane k) (\<lambda>next_cell.
       if state next_cell = 1 then Inr (Some (int i - 1))
       else distance2_other cells intended_lane index num_cells direction rest)))"

definition distance2 :: "Cell list list \<Rightarrow> Cell list \<Rightarrow> nat \<Rightarrow> int \<Rightarrow> nat \<Rightarrow> nat \<Rightarrow> int
    \<Rightarrow> error + int" where
  "distance2 cells curr_cells index num_cells curr_lane intended_lane direction =
     bind_err
       (if curr_lane = intended_lane
        then distance2_same curr_cells index num_cells direction [1..<length curr_cells]
        else distance2_other cells intended_lane index num_cells direction
               [1..<length curr_cells])
       (\<lambda>found. case found of Some d \<Rightarrow> Inr d | None \<Rightarrow> Inr num_cells)"

text \<open>\<^verbatim>\<open>can_change_lanes(cells, cell, i, index, num_cells, max_vels)\<close>: the four distances
  and the four conditions are computed first, the two guards are tested last, the second
  one only when the first holds.\<close>

definition can_change_lanes :: "Cell list list \<Rightarrow> Cell \<Rightarrow> nat \<Rightarrow> nat \<Rightarrow> int \<Rightarrow> int list
    \<Rightarrow> error + bool" where
  "can_change_lanes cells cell i index num_cells max_vels =
     bind_err (py_get cells (int i)) (\<lambda>curr_lane.
     bind_err (py_get cells (int ((i + 1) mod 2))) (\<lambda>other_lane.
     bind_err (distance2 cells curr_lane index num_cells i i 1) (\<lambda>dist_ahead.
     bind_err (distance2 cells curr_lane index num_cells i i (- 1)) (\<lambda>dist_behind.
     bind_err (distance2 cells curr_lane index num_cells i ((i + 1) mod 2) 1)
       (\<lambda>dist_ahead_other.
     bind_err (distance2 cells curr_lane index num_cells i ((i + 1) mod 2) (- 1))
       (\<lambda>dist_behind_other.
     bind_err (py_mod (int index + dist_ahead + 1) num_cells) (\<lambda>k1.
     bind_err (py_get curr_lane k1) (\<lambda>ahead.
     bind_err (py_mod (int index - (dist_behind + 1)) num_cells) (\<lambda>k3.
     bind_err (py_get curr_lane k3) (\<lambda>behind.
     bind_err (py_mod (int index - (dist_behind_other + 1)) num_cells) (\<lambda>k4.
     bind_err (py_get other_lane k4) (\<lambda>behind_other.
     bind_err (py_get max_vels (int ((i + 1) mod 2))) (\<lambda>max_other.
       let cond1 = velocity cell < velocity ahead - 1 + dist_ahead + 1;
           cond2 = dist_ahead_other \<ge> velocity cell;
           cond3 = velocity behind - (dist_behind + 1) < velocity cell - 1;
           cond4 = velocity behind_other - (dist_behind_other + 1) < velocity cell - 1
       in if velocity cell \<le> max_other
          then bind_err (py_get other_lane (int index)) (\<lambda>beside.
                 if state beside = 0 then Inr (cond1 \<and> cond2 \<and> cond3 \<and> cond4)
                 else Inr False)
          else Inr False)))))))))))))"

text \<open>\<^verbatim>\<open>change_lanes(cells, i, index)\<close>: the car's velocity is written to the cell beside
  it in the other lane, and the cell it leaves is cleared. Each subscript may raise.\<close>

definition change_lanes :: "Cell list list \<Rightarrow> nat \<Rightarrow> nat \<Rightarrow> error + Cell list list" where
  "change_lanes cells i index =
     (let j = (i + 1) mod 2 in
      if i < length cells \<and> j < length cells \<and> index < length (cells ! i)
         \<and> index < length (cells ! j)
      then Inr ((cells[j := (cells ! j)
                    [index := (cells ! j ! index)
                       \<lparr>velocity := velocity (cells ! i ! index), state := 1\<rparr>]])
                 [i := (cells ! i)
                    [index := (cells ! i ! index)\<lparr>velocity := - 1, state := 0\<rparr>]])
      else Inl IndexError)"

text \<open>\<^verbatim>\<open>move(cells, num_cells)\<close> of the two-lane model, called on one lane. The flag
  \<^verbatim>\<open>lane_change\<close> is carried from one car of the copy to the next: when it is set
  the source cell is not cleared. Nothing is printed.\<close>

definition move2_step :: "int \<Rightarrow> Cell list \<Rightarrow> nat \<times> Cell \<Rightarrow> Cell list \<times> bool
    \<Rightarrow> error + Cell list \<times> bool" where
  "move2_step num_cells cells_copy ic s =
     (case ic of (index, cell) \<Rightarrow> case s of (cells, lane_change) \<Rightarrow>
        if state cell = 1 then
          bind_err (py_mod (int index + velocity cell) num_cells) (\<lambda>next_cell.
          bind_err (py_index (length cells) next_cell) (\<lambda>nc.
            Inr (if lane_change then cells[nc := car (velocity cell)]
                 else (cells[index := empty_cell])[nc := car (velocity cell)],
                 state (cells_copy ! nc) = 1 \<and> int index \<noteq> next_cell)))
        else Inr (cells, lane_change))"

definition move2 :: "Cell list \<Rightarrow> int \<Rightarrow> error + Cell list" where
  "move2 cells num_cells =
     bind_err (for_each (move2_step num_cells cells) (enumerate 0 cells) (cells, False))
       (\<lambda>(cells', lane_change). Inr cells')"

text \<open>\<^verbatim>\<open>update(cells, num_cells, max_vels, p)\<close> of the two-lane model: four phases, each
  a loop over \<^verbatim>\<open>range(2)\<close> and over the live lane. The snapshot \<^verbatim>\<open>cells_copy\<close> is
  taken after the acceleration phase. In a loop over \<^verbatim>\<open>enumerate(cells[i])\<close> the
  subscripts \<^verbatim>\<open>cells[i][index]\<close> and \<^verbatim>\<open>cells_copy[i][index]\<close> are in range, since no
  phase changes the length of a lane.\<close>

definition accelerate_step :: "int list \<Rightarrow> nat \<Rightarrow> nat \<Rightarrow> Cell list list \<Rightarrow> error + Cell list list"
  where
  "accelerate_step max_vels i index cells =
     (if state (cells ! i ! index) = 1 then
        bind_err (py_get max_vels (int i)) (\<lambda>max_vel.
          Inr (cells[i := (cells ! i)[index := accelerate (cells ! i ! index) max_vel]]))
      else Inr cells)"

definition accelerate_lane :: "int list \<Rightarrow> nat \<Rightarrow> Cell list list \<Rightarrow> error + Cell list list" where
  "accelerate_lane max_vels i cells =
     (if i < length cells
      then for_each (accelerate_step max_vels i) [0..<length (cells ! i)] cells
      else Inl IndexError)"

text \<open>The condition of the lane-change phase,
  \<^verbatim>\<open>cell.velocity > next_distance and can_change_lanes(cells_copy, cells_copy[i][index], ...)\<close>:
  the velocity is the live cell's, the rest is read from the snapshot, and
  \<^verbatim>\<open>can_change_lanes\<close> is called only when the first conjunct holds.\<close>

definition lane_change_test :: "Cell list list \<Rightarrow> int \<Rightarrow> int list \<Rightarrow> nat \<Rightarrow> nat \<Rightarrow> Cell list list
    \<Rightarrow> error + bool" where
  "lane_change_test cells_copy num_cells max_vels i index cells =
     bind_err (distance2 cells_copy (cells_copy ! i) index num_cells i i 1)
       (\<lambda>next_distance.
         if velocity (cells ! i ! index) > next_distance
         then can_change_lanes cells_copy (cells_copy ! i ! index) i index num_cells max_vels
         else Inr False)"

definition lane_change_step :: "Cell list list \<Rightarrow> int \<Rightarrow> int list \<Rightarrow> nat \<Rightarrow> nat \<Rightarrow> Cell list list
    \<Rightarrow> error + Cell list list" where
  "lane_change_step cells_copy num_cells max_vels i index cells =
     (if state (cells ! i ! index) = 1 then
        bind_err (lane_change_test cells_copy num_cells max_vels i index cells)
          (\<lambda>ok. if ok then change_lanes cells i index else Inr cells)
      else Inr cells)"

definition lane_change_lane :: "Cell list list \<Rightarrow> int \<Rightarrow> int list \<Rightarrow> nat \<Rightarrow> Cell list list
    \<Rightarrow> error + Cell list list" where
  "lane_change_lane cells_copy num_cells max_vels i cells =
     (if i < length cells
      then for_each (lane_change_step cells_copy num_cells max_vels i)
             [0..<length (cells ! i)] cells
      else Inl IndexError)"

definition decelerate_step :: "Cell list list \<Rightarrow> int \<Rightarrow> real \<Rightarrow> random_source \<Rightarrow> nat \<Rightarrow> nat
    \<Rightarrow> Cell list list \<times> nat \<Rightarrow> error + Cell list list \<times> nat" where
  "decelerate_step cells_copy num_cells p rnd i index s =
     (case s of (cells, k) \<Rightarrow>
        if state (cells ! i ! index) = 1 then
          bind_err (distance2 cells_copy (cells_copy ! i) index num_cells i i 1)
            (\<lambda>next_distance.
          bind_err (decelerate (cells ! i ! index) (Some next_distance)) (\<lambda>cell.
            Inr (cells[i := (cells ! i)[index := randomize cell p (rnd k)]], Suc k)))
        else Inr (cells, k))"

definition decelerate_lane :: "Cell list list \<Rightarrow> int \<Rightarrow> real \<Rightarrow> random_source \<Rightarrow> nat
    \<Rightarrow> Cell list list \<times> nat \<Rightarrow> error + Cell list list \<times> nat" where
  "decelerate_lane cells_copy num_cells p rnd i s =
     (if i < length (fst s)
      then for_each (decelerate_step cells_copy num_cells p rnd i)
             [0..<length (fst s ! i)] s
      else Inl IndexError)"

definition move_lane :: "int \<Rightarrow> nat \<Rightarrow> Cell list list \<Rightarrow> error + Cell list list" where
  "move_lane num_cells i cells =
     (if i < length cells
      then bind_err (move2 (cells ! i) num_cells) (\<lambda>lane. Inr (cells[i := lane]))
      else Inl IndexError)"

definition update2 :: "Cell list list \<Rightarrow> int \<Rightarrow> int list \<Rightarrow> real \<Rightarrow> random_source \<Rightarrow> nat
    \<Rightarrow> error + Cell list list \<times> nat" where
  "update2 cells num_cells max_vels p rnd k =
     bind_err (for_each (accelerate_lane max_vels) [0, 1] cells) (\<lambda>cells1.
     bind_err (for_each (lane_change_lane cells1 num_cells max_vels) [0, 1] cells1)
       (\<lambda>cells2.
     bind_err (for_each (decelerate_lane cells1 num_cells p rnd) [0, 1] (cells2, k))
       (\<lambda>(cells3, k').
     bind_err (for_each (move_lane num_cells) [0, 1] cells3) (\<lambda>cells4.
       Inr (cells4, k')))))"

section \<open>Counting vehicles\<close>

definition num_cars :: "Cell list \<Rightarrow> nat" where
  "num_cars cells = length (filter (\<lambda>cell. state cell = 1) cells)"

definition total_cars :: "Cell list list \<Rightarrow> nat" where
  "total_cars cells = sum_list (map num_cars cells)"


section \<open>Well-formed roads\<close>

text \<open>A two-lane road of length \<open>n\<close>: a list of two lanes with \<open>n\<close> cells each.\<close>

definition road_ok :: "Cell list list \<Rightarrow> nat \<Rightarrow> bool" where
  "road_ok cells n \<longleftrightarrow> length cells = 2 \<and> length (cells ! 0) = n \<and> length (cells ! 1) = n"

text \<open>The car at cell \<open>index\<close> of lane \<open>i\<close> of the live road is granted a lane change: the
  cell holds a car and the condition of the lane-change phase is true for it.\<close>

definition granted :: "Cell list list \<Rightarrow> int \<Rightarrow> int list \<Rightarrow> nat \<Rightarrow> nat \<Rightarrow> Cell list list \<Rightarrow> bool"
  where
  "granted cells_copy num_cells max_vels i index cells \<longleftrightarrow>
     state (cells ! i ! index) = 1
     \<and> lane_change_test cells_copy num_cells max_vels i index cells = Inr True"

text \<open>The velocity bounds of a cell in a lane with speed limit \<open>max_vel\<close>: a car has a
  velocity between 0 and the limit, a cell without a car has velocity -1.\<close>

definition cell_ok :: "int \<Rightarrow> Cell \<Rightarrow> bool" where
  "cell_ok max_vel cell \<longleftrightarrow>
     (state cell = 1 \<and> 0 \<le> velocity cell \<and> velocity cell \<le> max_vel)
     \<or> (state cell = 0 \<and> velocity cell = - 1)"

definition lane_ok :: "int \<Rightarrow> Cell list \<Rightarrow> bool" where
  "lane_ok max_vel cells \<longleftrightarrow> list_all (cell_ok max_vel) cells"

text \<open>What the deceleration phase does to the cell \<open>index\<close> of lane \<open>i\<close>: a car is slowed
  down to the gap ahead of this cell in the snapshot and then dallies on one of the draws
  \<open>lo, \<dots>, hi - 1\<close>; a cell without a car is left as it is.\<close>

definition slowed :: "Cell list list \<Rightarrow> int \<Rightarrow> real \<Rightarrow> random_source \<Rightarrow> nat \<Rightarrow> nat \<Rightarrow> nat \<Rightarrow> nat
    \<Rightarrow> Cell \<Rightarrow> Cell \<Rightarrow> bool" where
  "slowed cells_copy num_cells p rnd lo hi i index cell cell' \<longleftrightarrow>
     (if state cell = 1
      then \<exists>d r. distance2 cells_copy (cells_copy ! i) index num_cells i i 1 = Inr d
             \<and> 0 \<le> d \<and> lo \<le> r \<and> r < hi
             \<and> cell' = randomize (cell\<lparr>velocity := min (velocity cell) d\<rparr>) p (rnd r)
      else cell' = cell)"

section \<open>Loops and subscripts that do not raise\<close>

lemma bind_err_Inr_iff: "bind_err m f = Inr y \<longleftrightarrow> (\<exists>x. m = Inr x \<and> f x = Inr y)"
  by (cases m) auto

lemma for_each_append:
  "for_each body (xs @ ys) s = bind_err (for_each body xs s) (for_each body ys)"
proof (induction xs arbitrary: s)
  case Nil
  show ?case by simp
next
  case (Cons x xs)
  show ?case by (cases "body x s") (simp_all add: Cons.IH)
qed

lemma for_each_map: "for_each body (map f xs) s = for_each (\<lambda>x. body (f x)) xs s"
proof (induction xs arbitrary: s)
  case Nil
  show ?case by simp
next
  case (Cons x xs)
  show ?case by (cases "body (f x) s") (simp_all add: Cons.IH)
qed

lemma for_upt_total:
  assumes "P 0 s0"
    and "\<And>i s. i < n \<Longrightarrow> P i s \<Longrightarrow> \<exists>s'. body i s = Inr s' \<and> P (Suc i) s'"
  shows "\<exists>s'. for_each body [0..<n] s0 = Inr s' \<and> P n s'"
  using assms(2)
proof (induction n)
  case 0
  show ?case using assms(1) by simp
next
  case (Suc n)
  then obtain s1 where s1: "for_each body [0..<n] s0 = Inr s1" "P n s1"
    by (meson less_Suc_eq)
  from Suc.prems[OF _ s1(2)] obtain s2 where "body n s1 = Inr s2" "P (Suc n) s2"
    by auto
  then show ?case using s1 by (simp add: for_each_append)
qed

lemma for_upt_inv:
  assumes "for_each body [0..<n] s0 = Inr s'" and "P 0 s0"
    and "\<And>i s s1. i < n \<Longrightarrow> P i s \<Longrightarrow> body i s = Inr s1 \<Longrightarrow> P (Suc i) s1"
  shows "P n s'"
  using assms(1,3)
proof (induction n arbitrary: s')
  case 0
  then show ?case using assms(2) by simp
next
  case (Suc n)
  from Suc.prems(1) obtain s1 where s1: "for_each body [0..<n] s0 = Inr s1" "body n s1 = Inr s'"
    by (auto simp: for_each_append bind_err_Inr_iff)
  have "P n s1" using Suc.IH[OF s1(1)] Suc.prems(2) by (meson less_Suc_eq)
  then show ?case using Suc.prems(2)[of n s1 s'] s1(2) by simp
qed

lemma enumerate_upt: "enumerate 0 xs = map (\<lambda>i. (i, xs ! i)) [0..<length xs]"
  by (rule nth_equalityI) (simp_all add: nth_enumerate_eq)

lemma py_mod_ok: "n \<noteq> 0 \<Longrightarrow> py_mod a n = Inr (a mod n)"
  by (simp add: py_mod_def)

lemma py_index_ok: "0 \<le> i \<Longrightarrow> i < int n \<Longrightarrow> py_index n i = Inr (nat i)"
  by (simp add: py_index_def)

lemma py_get_ok: "0 \<le> i \<Longrightarrow> i < int (length xs) \<Longrightarrow> py_get xs i = Inr (xs ! nat i)"
  by (simp add: py_get_def py_index_ok)

lemma py_get_mod: "0 < length xs \<Longrightarrow> py_get xs (a mod int (length xs)) = Inr (xs ! nat (a mod int (length xs)))"
  by (rule py_get_ok) simp_all

lemma nat_mod_less: "0 < n \<Longrightarrow> nat (a mod int n) < n"
  by (simp add: nat_less_iff)

lemma shifted_cell_differs:
  assumes "0 < i" "i < n" "j < n"
  shows "nat ((int i + int j) mod int n) \<noteq> j"
proof
  assume "nat ((int i + int j) mod int n) = j"
  then have "(i + j) mod n = j"
    by (simp add: nat_mod_distrib nat_add_distrib)
  moreover have "(i + j) mod n = (if i + j < n then i + j else i + j - n)"
    using assms by (simp add: mod_if)
  ultimately show False using assms by (simp split: if_splits)
qed

lemma distance_loop_None:
  assumes "0 < length cells"
    and "\<forall>i\<in>set is. state (cells ! nat ((int i + int index) mod int (length cells))) \<noteq> 1"
  shows "distance_loop cells index (int (length cells)) is = Inr None"
  using assms(2)
proof (induction "is")
  case Nil
  show ?case by simp
next
  case (Cons i rest)
  then show ?case using assms(1) by (simp add: py_mod_ok py_get_mod)
qed

section \<open>The single-lane lane with one car\<close>

lemma single_car_position:
  assumes "num_cars cells = 1"
  shows "\<exists>j<length cells. state (cells ! j) = 1 \<and>
    (\<forall>i<length cells. i \<noteq> j \<longrightarrow> state (cells ! i) \<noteq> 1)"
proof -
  from assms obtain y where "filter (\<lambda>cell. state cell = 1) cells = [y]"
    by (auto simp: num_cars_def length_Suc_conv)
  then obtain us vs where split: "cells = us @ y # vs" "\<forall>u\<in>set us. state u \<noteq> 1"
    "state y = 1" "filter (\<lambda>cell. state cell = 1) vs = []"
    by (auto simp: filter_eq_Cons_iff)
  from split(4) have vs: "\<forall>v\<in>set vs. state v \<noteq> 1"
    by (simp add: filter_empty_conv)
  have "\<forall>i<length cells. i \<noteq> length us \<longrightarrow> state (cells ! i) \<noteq> 1"
    using split(1,2) vs by (auto simp: nth_append nth_Cons')
  moreover have "length us < length cells" "state (cells ! length us) = 1"
    using split(1,3) by simp_all
  ultimately show ?thesis by blast
qed

lemma distance_alone:
  assumes "j < length cells"
    and "\<And>i. i < length cells \<Longrightarrow> i \<noteq> j \<Longrightarrow> state (cells ! i) \<noteq> 1"
  shows "distance cells j (int (length cells)) = Inr None"
  unfolding distance_def
proof (rule distance_loop_None)
  show "0 < length cells" using assms(1) by auto
  show "\<forall>i\<in>set [1..<length cells].
      state (cells ! nat ((int i + int j) mod int (length cells))) \<noteq> 1"
  proof
    fix i assume "i \<in> set [1..<length cells]"
    then have i: "0 < i" "i < length cells" by simp_all
    have "nat ((int i + int j) mod int (length cells)) \<noteq> j"
      using shifted_cell_differs[OF i assms(1)] .
    moreover have "nat ((int i + int j) mod int (length cells)) < length cells"
      using assms(1) by (intro nat_mod_less) auto
    ultimately show "state (cells ! nat ((int i + int j) mod int (length cells))) \<noteq> 1"
      using assms(2) by blast
  qed
qed

lemma update_loop_skips:
  assumes "\<And>i. i < j \<Longrightarrow> state (cells ! i) \<noteq> 1"
  shows "for_each (update_step num_cells max_vel p rnd) [0..<j] (cells, k) = Inr (cells, k)"
proof -
  have "\<exists>s'. for_each (update_step num_cells max_vel p rnd) [0..<j] (cells, k) = Inr s'
      \<and> s' = (cells, k)"
    by (rule for_upt_total[where P = "\<lambda>i s. s = (cells, k)"])
      (simp_all add: update_step_def assms)
  then show ?thesis by simp
qed


section \<open>The two-lane gap query and the lane-change test on a well-formed road\<close>

lemma py_get_nat: "k < length xs \<Longrightarrow> py_get xs (int k) = Inr (xs ! k)"
  by (simp add: py_get_ok)

lemma py_get_mod_n:
  "length xs = n \<Longrightarrow> 0 < n \<Longrightarrow> py_get xs (a mod int n) = Inr (xs ! nat (a mod int n))"
  using py_get_mod[of xs a] by simp

lemma road_ok_lane: "road_ok cells n \<Longrightarrow> i < 2 \<Longrightarrow> length (cells ! i) = n"
  by (auto simp: road_ok_def dest!: less_2_cases)

lemma road_ok_length: "road_ok cells n \<Longrightarrow> length cells = 2"
  by (simp add: road_ok_def)

lemma distance2_other_eq:
  assumes "il < length cells"
  shows "distance2_other cells il index num_cells direction is
    = distance2_same (cells ! il) index num_cells direction is"
  by (induction "is") (simp_all add: py_get_nat assms cong: if_cong)

lemma distance2_same_total:
  assumes "length lane = n" "0 < n"
  shows "\<exists>r. distance2_same lane index (int n) direction is = Inr r
    \<and> (\<forall>d. r = Some d \<longrightarrow> (\<exists>i\<in>set is. d = int i - 1))"
proof (induction "is")
  case Nil
  show ?case by simp
next
  case (Cons i rest)
  then show ?case using assms by (auto simp: py_mod_ok py_get_mod_n)
qed

lemma distance2_other_lane:
  assumes "road_ok cells n" "i < 2" "il < 2"
  shows "distance2 cells (cells ! i) index num_cells i il direction
    = distance2 cells (cells ! il) index num_cells il il direction"
  using assms by (simp add: distance2_def distance2_other_eq road_ok_lane road_ok_length)

lemma distance2_total:
  assumes "road_ok cells n" "0 < n" "i < 2" "il < 2"
  shows "\<exists>d. distance2 cells (cells ! i) index (int n) i il direction = Inr d \<and> 0 \<le> d"
proof -
  have len: "length (cells ! il) = n" using assms by (simp add: road_ok_lane)
  from distance2_same_total[OF len assms(2), of index direction "[1..<n]"]
  obtain r where r: "distance2_same (cells ! il) index (int n) direction [1..<n] = Inr r"
    "\<forall>d. r = Some d \<longrightarrow> (\<exists>i\<in>set [1..<n]. d = int i - 1)" by blast
  have "distance2 cells (cells ! il) index (int n) il il direction
      = Inr (case r of Some d \<Rightarrow> d | None \<Rightarrow> int n)"
    using r(1) len by (cases r) (simp_all add: distance2_def)
  moreover have "0 \<le> (case r of Some d \<Rightarrow> d | None \<Rightarrow> int n)"
    using r(2) by (cases r) auto
  ultimately show ?thesis
    using distance2_other_lane[OF assms(1,3,4)] by simp
qed

lemma other_lane_less: "(i + 1) mod 2 < (2::nat)"
  by simp

lemma can_change_lanes_result:
  assumes ok: "road_ok cells n" "0 < n" "i < 2" "index < n" "2 \<le> length max_vels"
    and ga: "distance2 cells (cells ! i) index (int n) i i 1 = Inr ga"
    and gb: "distance2 cells (cells ! i) index (int n) i i (- 1) = Inr gb"
    and gao: "distance2 cells (cells ! i) index (int n) i ((i + 1) mod 2) 1 = Inr gao"
    and gbo: "distance2 cells (cells ! i) index (int n) i ((i + 1) mod 2) (- 1) = Inr gbo"
  shows "can_change_lanes cells cell i index (int n) max_vels =
     Inr (velocity cell \<le> max_vels ! ((i + 1) mod 2)
        \<and> state (cells ! ((i + 1) mod 2) ! index) = 0
        \<and> velocity cell
            < velocity (cells ! i ! nat ((int index + ga + 1) mod int n)) - 1 + ga + 1
        \<and> gao \<ge> velocity cell
        \<and> velocity (cells ! i ! nat ((int index - (gb + 1)) mod int n)) - (gb + 1)
            < velocity cell - 1
        \<and> velocity (cells ! ((i + 1) mod 2) ! nat ((int index - (gbo + 1)) mod int n))
              - (gbo + 1)
            < velocity cell - 1)"
proof -
  define j where "j = (i + 1) mod 2"
  have j: "j < 2" by (simp add: j_def)
  have len: "length cells = 2" "length (cells ! i) = n" "length (cells ! j) = n"
    using ok j by (simp_all add: road_ok_length road_ok_lane)
  have lanes: "py_get cells (int i) = Inr (cells ! i)" "py_get cells (int j) = Inr (cells ! j)"
    using ok(3) j len(1) by (simp_all add: py_get_nat)
  have mv: "py_get max_vels (int j) = Inr (max_vels ! j)"
    using ok(5) j by (simp add: py_get_nat)
  have beside: "py_get (cells ! j) (int index) = Inr (cells ! j ! index)"
    using ok(4) len(3) by (simp add: py_get_nat)
  have n0: "int n \<noteq> 0" using ok(2) by simp
  show ?thesis
    using ga gb gao gbo
    unfolding can_change_lanes_def j_def[symmetric]
    by (simp add: lanes mv beside py_mod_ok[OF n0]
        py_get_mod_n[OF len(2) ok(2)] py_get_mod_n[OF len(3) ok(2)] Let_def)
qed

lemma cell_cleared: "c\<lparr>velocity := - 1, state := 0\<rparr> = empty_cell"
  by (simp add: empty_cell_def)

lemma cell_filled: "c\<lparr>velocity := v, state := 1\<rparr> = car v"
  by (simp add: car_def)

lemma other_lane_cases: "i < 2 \<Longrightarrow> (i = 0 \<and> (i + 1) mod 2 = (1::nat)) \<or> (i = 1 \<and> (i + 1) mod 2 = 0)"
  by (auto dest!: less_2_cases)

lemma change_lanes_result:
  assumes "road_ok cells n" "i < 2" "index < n"
  shows "change_lanes cells i index =
    Inr ((cells[(i + 1) mod 2 := (cells ! ((i + 1) mod 2))[index := car (velocity (cells ! i ! index))]])
           [i := (cells ! i)[index := empty_cell]])"
proof -
  have "(i + 1) mod 2 < length cells" "i < length cells"
    "index < length (cells ! i)" "index < length (cells ! ((i + 1) mod 2))"
    using assms by (simp_all add: road_ok_length road_ok_lane)
  then show ?thesis
    unfolding change_lanes_def Let_def by (simp add: cell_cleared cell_filled)
qed

lemma lane_change_test_total:
  assumes "road_ok snap n" "0 < n" "i < 2" "index < n" "2 \<le> length max_vels"
  shows "\<exists>b. lane_change_test snap (int n) max_vels i index cells = Inr b"
proof -
  have j: "(i + 1) mod 2 < (2::nat)" by simp
  from distance2_total[OF assms(1,2,3,3)] obtain ga
    where ga: "distance2 snap (snap ! i) index (int n) i i 1 = Inr ga" by blast
  from distance2_total[OF assms(1,2,3,3)] obtain gb
    where gb: "distance2 snap (snap ! i) index (int n) i i (- 1) = Inr gb" by blast
  from distance2_total[OF assms(1,2,3) j] obtain gao
    where gao: "distance2 snap (snap ! i) index (int n) i ((i + 1) mod 2) 1 = Inr gao" by blast
  from distance2_total[OF assms(1,2,3) j] obtain gbo
    where gbo: "distance2 snap (snap ! i) index (int n) i ((i + 1) mod 2) (- 1) = Inr gbo"
    by blast
  show ?thesis
    unfolding lane_change_test_def
    by (auto simp: ga can_change_lanes_result[OF assms ga gb gao gbo])
qed

lemma lane_change_test_cell:
  "cells ! i ! index = cells' ! i ! index \<Longrightarrow>
   lane_change_test snap num_cells max_vels i index cells
     = lane_change_test snap num_cells max_vels i index cells'"
  by (simp add: lane_change_test_def)

lemma lane_change_step_result:
  assumes "road_ok snap n" "road_ok cells n" "i < 2" "index < n" "2 \<le> length max_vels"
  shows "lane_change_step snap (int n) max_vels i index cells =
    Inr (if granted snap (int n) max_vels i index cells
         then (cells[(i + 1) mod 2 := (cells ! ((i + 1) mod 2))[index := car (velocity (cells ! i ! index))]])
                [i := (cells ! i)[index := empty_cell]]
         else cells)"
proof -
  have n: "0 < n" using assms(4) by simp
  from lane_change_test_total[OF assms(1) n assms(3,4,5)]
  obtain b where b: "lane_change_test snap (int n) max_vels i index cells = Inr b" by blast
  show ?thesis
    by (simp add: lane_change_step_def granted_def b change_lanes_result[OF assms(2,3,4)])
qed

lemma road_ok_update2:
  assumes "road_ok cells n" "i < 2" "length a = n" "length b = n"
  shows "road_ok ((cells[(i + 1) mod 2 := a])[i := b]) n"
  using assms other_lane_cases[OF assms(2)] by (auto simp: road_ok_def)

lemma nth_update2:
  assumes "road_ok cells n" "i < 2"
  shows "(cells[(i + 1) mod 2 := a])[i := b] ! i = b"
    "(cells[(i + 1) mod 2 := a])[i := b] ! ((i + 1) mod 2) = a"
  using assms other_lane_cases[OF assms(2)] by (auto simp: road_ok_def)

lemma lane_change_lane_result:
  assumes snap: "road_ok snap n" and live: "road_ok live n" and i: "i < 2"
    and mv: "2 \<le> length max_vels"
  shows "\<exists>live'. lane_change_lane snap (int n) max_vels i live = Inr live' \<and> road_ok live' n \<and>
    (\<forall>k<n. live' ! i ! k = (if granted snap (int n) max_vels i k live then empty_cell
                             else live ! i ! k)
         \<and> live' ! ((i + 1) mod 2) ! k
             = (if granted snap (int n) max_vels i k live then car (velocity (live ! i ! k))
                else live ! ((i + 1) mod 2) ! k))"
proof -
  define j where "j = (i + 1) mod 2"
  define P where "P m s \<longleftrightarrow> road_ok s n \<and>
    (\<forall>k<n. s ! i ! k = (if k < m \<and> granted snap (int n) max_vels i k live then empty_cell
                        else live ! i ! k)
         \<and> s ! j ! k = (if k < m \<and> granted snap (int n) max_vels i k live
                        then car (velocity (live ! i ! k)) else live ! j ! k))" for m s
  have P0: "P 0 live" by (simp add: P_def live)
  have step: "\<exists>s'. lane_change_step snap (int n) max_vels i m s = Inr s' \<and> P (Suc m) s'"
    if m: "m < n" and Ps: "P m s" for m s
  proof -
    have ok: "road_ok s n" using Ps by (simp add: P_def)
    have same: "s ! i ! m = live ! i ! m" using Ps m by (simp add: P_def)
    have g: "granted snap (int n) max_vels i m s = granted snap (int n) max_vels i m live"
      using same lane_change_test_cell[OF same] by (simp add: granted_def)
    have len: "length (s ! i) = n" "length (s ! j) = n"
      using ok i by (simp_all add: road_ok_lane j_def)
    let ?s' = "if granted snap (int n) max_vels i m live
         then (s[j := (s ! j)[m := car (velocity (s ! i ! m))]])[i := (s ! i)[m := empty_cell]]
         else s"
    have res: "lane_change_step snap (int n) max_vels i m s = Inr ?s'"
      using lane_change_step_result[OF snap ok i m mv] by (simp add: g j_def)
    have "P (Suc m) ?s'"
    proof (cases "granted snap (int n) max_vels i m live")
      case False
      then show ?thesis using Ps by (auto simp: P_def less_Suc_eq)
    next
      case True
      have "road_ok ((s[j := (s ! j)[m := car (velocity (s ! i ! m))]])[i := (s ! i)[m := empty_cell]]) n"
        unfolding j_def by (rule road_ok_update2[OF ok i]) (use len in \<open>simp_all add: j_def\<close>)
      moreover have "(s[j := (s ! j)[m := car (velocity (s ! i ! m))]])[i := (s ! i)[m := empty_cell]] ! i
          = (s ! i)[m := empty_cell]"
        "(s[j := (s ! j)[m := car (velocity (s ! i ! m))]])[i := (s ! i)[m := empty_cell]] ! j
          = (s ! j)[m := car (velocity (s ! i ! m))]"
        unfolding j_def using nth_update2[OF ok i] by simp_all
      ultimately show ?thesis
        using True Ps m len same by (auto simp: P_def less_Suc_eq nth_list_update)
    qed
    then show ?thesis using res by blast
  qed
  have "\<exists>s'. for_each (lane_change_step snap (int n) max_vels i) [0..<n] live = Inr s' \<and> P n s'"
    by (rule for_upt_total[where P = P, OF P0 step])
  then obtain s' where s': "for_each (lane_change_step snap (int n) max_vels i) [0..<n] live = Inr s'"
    "P n s'" by blast
  have "lane_change_lane snap (int n) max_vels i live = Inr s'"
    using s'(1) live i by (simp add: lane_change_lane_def road_ok_length road_ok_lane)
  then show ?thesis using s'(2) by (auto simp: P_def j_def)
qed

lemma for_each_pair:
  "f a s = Inr s1 \<Longrightarrow> f b s1 = Inr s2 \<Longrightarrow> for_each f [a, b] s = Inr s2"
  by simp

lemma granted_facts:
  assumes ok: "road_ok snap n" "i < 2" "index < n" "2 \<le> length max_vels"
    and same: "cells ! i ! index = snap ! i ! index"
    and g: "granted snap (int n) max_vels i index cells"
  shows "state (snap ! i ! index) = 1
    \<and> state (snap ! ((i + 1) mod 2) ! index) = 0
    \<and> velocity (snap ! i ! index) \<le> max_vels ! ((i + 1) mod 2)
    \<and> (\<exists>d. distance2 snap (snap ! i) index (int n) i i 1 = Inr d
           \<and> d < velocity (snap ! i ! index))
    \<and> (\<exists>d. distance2 snap (snap ! ((i + 1) mod 2)) index (int n)
              ((i + 1) mod 2) ((i + 1) mod 2) 1 = Inr d
           \<and> velocity (snap ! i ! index) \<le> d)"
proof -
  have n: "0 < n" using ok(3) by simp
  have j: "(i + 1) mod 2 < (2::nat)" by simp
  from distance2_total[OF ok(1) n ok(2,2)] obtain ga
    where ga: "distance2 snap (snap ! i) index (int n) i i 1 = Inr ga" by blast
  from distance2_total[OF ok(1) n ok(2,2)] obtain gb
    where gb: "distance2 snap (snap ! i) index (int n) i i (- 1) = Inr gb" by blast
  from distance2_total[OF ok(1) n ok(2) j] obtain gao
    where gao: "distance2 snap (snap ! i) index (int n) i ((i + 1) mod 2) 1 = Inr gao" by blast
  from distance2_total[OF ok(1) n ok(2) j] obtain gbo
    where gbo: "distance2 snap (snap ! i) index (int n) i ((i + 1) mod 2) (- 1) = Inr gbo"
    by blast
  have gao': "distance2 snap (snap ! ((i + 1) mod 2)) index (int n)
              ((i + 1) mod 2) ((i + 1) mod 2) 1 = Inr gao"
    using distance2_other_lane[OF ok(1,2) j, of index "int n" 1] gao by simp
  note res = can_change_lanes_result[OF ok(1) n ok(2,3,4) ga gb gao gbo, of "snap ! i ! index"]
  from g have st: "state (snap ! i ! index) = 1"
    and t: "lane_change_test snap (int n) max_vels i index cells = Inr True"
    using same by (simp_all add: granted_def)
  from t have "ga < velocity (snap ! i ! index)"
    "can_change_lanes snap (snap ! i ! index) i index (int n) max_vels = Inr True"
    using same by (auto simp: lane_change_test_def ga split: if_splits)
  then show ?thesis using st res ga gao' by simp
qed

lemma not_granted_after_change:
  assumes ok: "road_ok snap n" "i < 2" "index < n" "2 \<le> length max_vels"
    and g: "granted snap (int n) max_vels i index snap"
    and c: "cells ! ((i + 1) mod 2) ! index = car (velocity (snap ! i ! index))"
  shows "lane_change_test snap (int n) max_vels ((i + 1) mod 2) index cells = Inr False"
proof -
  from granted_facts[OF ok refl g] obtain d
    where d: "distance2 snap (snap ! ((i + 1) mod 2)) index (int n)
              ((i + 1) mod 2) ((i + 1) mod 2) 1 = Inr d" "velocity (snap ! i ! index) \<le> d"
    by blast
  show ?thesis
    unfolding lane_change_test_def using d c by (simp add: car_def)
qed

lemma granted_cell:
  "cells ! i ! index = cells' ! i ! index \<Longrightarrow>
   granted snap num_cells max_vels i index cells = granted snap num_cells max_vels i index cells'"
  using lane_change_test_cell[of cells i index cells'] by (simp add: granted_def)

lemma granted_exclusive:
  assumes "road_ok snap n" "index < n" "2 \<le> length max_vels"
    and "granted snap (int n) max_vels 0 index snap"
  shows "\<not> granted snap (int n) max_vels 1 index snap"
  using granted_facts[OF assms(1) _ assms(2,3) refl assms(4)] by (simp add: granted_def)

lemma lane_change_phase_result:
  assumes snap: "road_ok snap n" and mv: "2 \<le> length max_vels"
  shows "\<exists>cells1 cells2.
    lane_change_lane snap (int n) max_vels 0 snap = Inr cells1
    \<and> lane_change_lane snap (int n) max_vels 1 cells1 = Inr cells2
    \<and> for_each (lane_change_lane snap (int n) max_vels) [0, 1] snap = Inr cells2
    \<and> road_ok cells1 n \<and> road_ok cells2 n
    \<and> (\<forall>k<n. cells1 ! 0 ! k = (if granted snap (int n) max_vels 0 k snap then empty_cell
                                else snap ! 0 ! k)
           \<and> cells1 ! 1 ! k = (if granted snap (int n) max_vels 0 k snap
                                then car (velocity (snap ! 0 ! k)) else snap ! 1 ! k)
           \<and> cells2 ! 0 ! k = (if granted snap (int n) max_vels 0 k snap then empty_cell
                                else if granted snap (int n) max_vels 1 k snap
                                then car (velocity (snap ! 1 ! k)) else snap ! 0 ! k)
           \<and> cells2 ! 1 ! k = (if granted snap (int n) max_vels 0 k snap
                                then car (velocity (snap ! 0 ! k))
                                else if granted snap (int n) max_vels 1 k snap then empty_cell
                                else snap ! 1 ! k))"
proof -
  from lane_change_lane_result[OF snap snap _ mv, of 0]
  obtain cells1 where c1: "lane_change_lane snap (int n) max_vels 0 snap = Inr cells1"
    "road_ok cells1 n"
    "\<And>k. k < n \<Longrightarrow> cells1 ! 0 ! k = (if granted snap (int n) max_vels 0 k snap then empty_cell
                             else snap ! 0 ! k)"
    "\<And>k. k < n \<Longrightarrow> cells1 ! 1 ! k = (if granted snap (int n) max_vels 0 k snap
                then car (velocity (snap ! 0 ! k)) else snap ! 1 ! k)"
    by auto
  from lane_change_lane_result[OF snap c1(2) _ mv, of 1]
  obtain cells2 where c2: "lane_change_lane snap (int n) max_vels 1 cells1 = Inr cells2"
    "road_ok cells2 n"
    "\<And>k. k < n \<Longrightarrow> cells2 ! 1 ! k = (if granted snap (int n) max_vels 1 k cells1 then empty_cell
                             else cells1 ! 1 ! k)"
    "\<And>k. k < n \<Longrightarrow> cells2 ! 0 ! k = (if granted snap (int n) max_vels 1 k cells1
                then car (velocity (cells1 ! 1 ! k)) else cells1 ! 0 ! k)"
    by auto
  have g1: "granted snap (int n) max_vels 1 k cells1
      \<longleftrightarrow> \<not> granted snap (int n) max_vels 0 k snap \<and> granted snap (int n) max_vels 1 k snap"
    if k: "k < n" for k
  proof (cases "granted snap (int n) max_vels 0 k snap")
    case True
    have "cells1 ! ((0 + 1) mod 2) ! k = car (velocity (snap ! 0 ! k))"
      using c1(4)[OF k] True by simp
    from not_granted_after_change[OF snap _ k mv True this]
    show ?thesis using True by (simp add: granted_def)
  next
    case False
    then have "cells1 ! 1 ! k = snap ! 1 ! k" using c1(4)[OF k] by simp
    from granted_cell[OF this] show ?thesis using False by simp
  qed
  have "for_each (lane_change_lane snap (int n) max_vels) [0, 1] snap = Inr cells2"
    using c1(1) c2(1) by simp
  moreover have "\<forall>k<n. cells1 ! 0 ! k = (if granted snap (int n) max_vels 0 k snap then empty_cell
                                else snap ! 0 ! k)
           \<and> cells1 ! 1 ! k = (if granted snap (int n) max_vels 0 k snap
                                then car (velocity (snap ! 0 ! k)) else snap ! 1 ! k)
           \<and> cells2 ! 0 ! k = (if granted snap (int n) max_vels 0 k snap then empty_cell
                                else if granted snap (int n) max_vels 1 k snap
                                then car (velocity (snap ! 1 ! k)) else snap ! 0 ! k)
           \<and> cells2 ! 1 ! k = (if granted snap (int n) max_vels 0 k snap
                                then car (velocity (snap ! 0 ! k))
                                else if granted snap (int n) max_vels 1 k snap then empty_cell
                                else snap ! 1 ! k)"
    using c1(3,4) c2(3,4) g1 by auto
  ultimately show ?thesis using c1(1,2) c2(1,2) by blast
qed

section \<open>The phases of the two-lane update on a well-formed road\<close>

lemma road_ok_set_lane:
  assumes "road_ok s n" "i < 2" "length lane = n"
  shows "road_ok (s[i := lane]) n"
  using assms by (auto simp: road_ok_def dest!: less_2_cases)

lemma nth_set_lane:
  assumes "road_ok s n" "i < 2" "j < 2"
  shows "s[i := lane] ! j = (if j = i then lane else s ! j)"
  using assms by (auto simp: road_ok_def)

lemma accelerate_lane_result:
  assumes ok: "road_ok cells n" and i: "i < 2" and mv: "2 \<le> length max_vels"
  shows "\<exists>cells'. accelerate_lane max_vels i cells = Inr cells' \<and> road_ok cells' n
    \<and> (\<forall>l<2. l \<noteq> i \<longrightarrow> cells' ! l = cells ! l)
    \<and> (\<forall>k<n. cells' ! i ! k = (if state (cells ! i ! k) = 1
                                 then accelerate (cells ! i ! k) (max_vels ! i)
                                 else cells ! i ! k))"
proof -
  define P where "P m s \<longleftrightarrow> road_ok s n \<and> (\<forall>l<2. l \<noteq> i \<longrightarrow> s ! l = cells ! l)
    \<and> (\<forall>k<n. s ! i ! k = (if k < m \<and> state (cells ! i ! k) = 1
                           then accelerate (cells ! i ! k) (max_vels ! i)
                           else cells ! i ! k))" for m s
  have P0: "P 0 cells" by (simp add: P_def ok)
  have step: "\<exists>s'. accelerate_step max_vels i m s = Inr s' \<and> P (Suc m) s'"
    if m: "m < n" and Ps: "P m s" for m s
  proof -
    have oks: "road_ok s n" using Ps by (simp add: P_def)
    have same: "s ! i ! m = cells ! i ! m" using Ps m by (simp add: P_def)
    have len: "length (s ! i) = n" using oks i by (simp add: road_ok_lane)
    have get: "py_get max_vels (int i) = Inr (max_vels ! i)"
      using i mv by (simp add: py_get_nat)
    show ?thesis
    proof (cases "state (cells ! i ! m) = 1")
      case False
      then have "accelerate_step max_vels i m s = Inr s"
        by (simp add: accelerate_step_def same)
      moreover have "P (Suc m) s" using Ps False by (auto simp: P_def less_Suc_eq)
      ultimately show ?thesis by blast
    next
      case True
      let ?s' = "s[i := (s ! i)[m := accelerate (cells ! i ! m) (max_vels ! i)]]"
      have "accelerate_step max_vels i m s = Inr ?s'"
        using True by (simp add: accelerate_step_def same get)
      moreover have "road_ok ?s' n"
        by (rule road_ok_set_lane[OF oks i]) (simp add: len)
      moreover have "\<forall>l<2. ?s' ! l = (if l = i then (s ! i)[m := accelerate (cells ! i ! m) (max_vels ! i)] else s ! l)"
        using nth_set_lane[OF oks i] by simp
      ultimately show ?thesis
        using Ps i m len True by (auto simp: P_def less_Suc_eq nth_list_update)
    qed
  qed
  have "\<exists>s'. for_each (accelerate_step max_vels i) [0..<n] cells = Inr s' \<and> P n s'"
    by (rule for_upt_total[where P = P, OF P0 step])
  then obtain s' where s': "for_each (accelerate_step max_vels i) [0..<n] cells = Inr s'"
    "P n s'" by blast
  have "accelerate_lane max_vels i cells = Inr s'"
    using s'(1) ok i by (simp add: accelerate_lane_def road_ok_length road_ok_lane)
  then show ?thesis using s'(2) by (auto simp: P_def)
qed

lemma accelerate_phase_result:
  assumes ok: "road_ok cells n" and mv: "2 \<le> length max_vels"
  shows "\<exists>snap. for_each (accelerate_lane max_vels) [0, 1] cells = Inr snap \<and> road_ok snap n
    \<and> (\<forall>i<2. \<forall>k<n. snap ! i ! k = (if state (cells ! i ! k) = 1
                                 then accelerate (cells ! i ! k) (max_vels ! i)
                                 else cells ! i ! k))"
proof -
  from accelerate_lane_result[OF ok _ mv, of 0] obtain s1
    where s1: "accelerate_lane max_vels 0 cells = Inr s1" "road_ok s1 n"
      "\<forall>l<2. l \<noteq> 0 \<longrightarrow> s1 ! l = cells ! l"
      "\<forall>k<n. s1 ! 0 ! k = (if state (cells ! 0 ! k) = 1
          then accelerate (cells ! 0 ! k) (max_vels ! 0) else cells ! 0 ! k)"
    by auto
  from accelerate_lane_result[OF s1(2) _ mv, of 1] obtain s2
    where s2: "accelerate_lane max_vels 1 s1 = Inr s2" "road_ok s2 n"
      "\<forall>l<2. l \<noteq> 1 \<longrightarrow> s2 ! l = s1 ! l"
      "\<forall>k<n. s2 ! 1 ! k = (if state (s1 ! 1 ! k) = 1
          then accelerate (s1 ! 1 ! k) (max_vels ! 1) else s1 ! 1 ! k)"
    by auto
  have "for_each (accelerate_lane max_vels) [0, 1] cells = Inr s2"
    using s1(1) s2(1) by simp
  moreover have "\<forall>i<2. \<forall>k<n. s2 ! i ! k = (if state (cells ! i ! k) = 1
                                 then accelerate (cells ! i ! k) (max_vels ! i)
                                 else cells ! i ! k)"
    using s1(3,4) s2(3,4) by (auto dest!: less_2_cases)
  ultimately show ?thesis using s2(2) by blast
qed

lemma decelerate_Some:
  "decelerate cell (Some d) = Inr (cell\<lparr>velocity := min (velocity cell) d\<rparr>)"
  by (simp add: decelerate_def min_def)

lemma slowed_mono:
  assumes "slowed snap num_cells p rnd lo hi i q c c'" and "hi \<le> hi'"
  shows "slowed snap num_cells p rnd lo hi' i q c c'"
proof (cases "state c = 1")
  case False
  then show ?thesis using assms(1) by (simp add: slowed_def)
next
  case True
  then obtain d r where dr: "distance2 snap (snap ! i) q num_cells i i 1 = Inr d" "0 \<le> d"
    "lo \<le> r" "r < hi" "c' = randomize (c\<lparr>velocity := min (velocity c) d\<rparr>) p (rnd r)"
    using assms(1) by (auto simp: slowed_def)
  have "r < hi'" using dr(4) assms(2) by simp
  then show ?thesis unfolding slowed_def using True dr(1,2,3,5) by auto
qed

lemma decelerate_lane_result:
  assumes snap: "road_ok snap n" and ok: "road_ok cells n" and i: "i < 2"
  shows "\<exists>cells' k'. decelerate_lane snap (int n) p rnd i (cells, k) = Inr (cells', k')
    \<and> road_ok cells' n \<and> k \<le> k'
    \<and> (\<forall>l<2. l \<noteq> i \<longrightarrow> cells' ! l = cells ! l)
    \<and> (\<forall>q<n. slowed snap (int n) p rnd k k' i q (cells ! i ! q) (cells' ! i ! q))"
proof -
  define P where "P m t \<longleftrightarrow> (case t of (s, kk) \<Rightarrow> road_ok s n \<and> k \<le> kk
    \<and> (\<forall>l<2. l \<noteq> i \<longrightarrow> s ! l = cells ! l)
    \<and> (\<forall>q<n. if q < m then slowed snap (int n) p rnd k kk i q (cells ! i ! q) (s ! i ! q)
               else s ! i ! q = cells ! i ! q))" for m t
  have P0: "P 0 (cells, k)" by (simp add: P_def ok)
  have step: "\<exists>t'. decelerate_step snap (int n) p rnd i m t = Inr t' \<and> P (Suc m) t'"
    if m: "m < n" and Pt: "P m t" for m t
  proof -
    obtain s kk where t: "t = (s, kk)" by (cases t)
    have oks: "road_ok s n" and kk: "k \<le> kk"
      and others: "\<forall>l<2. l \<noteq> i \<longrightarrow> s ! l = cells ! l"
      and cellsq: "\<forall>q<n. if q < m then slowed snap (int n) p rnd k kk i q (cells ! i ! q) (s ! i ! q)
               else s ! i ! q = cells ! i ! q"
      using Pt by (simp_all add: P_def t)
    have same: "s ! i ! m = cells ! i ! m" using cellsq m by auto
    have len: "length (s ! i) = n" using oks i by (simp add: road_ok_lane)
    show ?thesis
    proof (cases "state (cells ! i ! m) = 1")
      case False
      then have "decelerate_step snap (int n) p rnd i m t = Inr t"
        by (simp add: decelerate_step_def t same)
      moreover have "slowed snap (int n) p rnd k kk i m (cells ! i ! m) (s ! i ! m)"
        using False same by (simp add: slowed_def)
      then have "\<forall>q<n. if q < Suc m
          then slowed snap (int n) p rnd k kk i q (cells ! i ! q) (s ! i ! q)
          else s ! i ! q = cells ! i ! q"
        using cellsq by (auto simp: less_Suc_eq)
      then have "P (Suc m) t"
        unfolding P_def t using oks kk others by simp
      ultimately show ?thesis by blast
    next
      case True
      have n: "0 < n" using m by simp
      from distance2_total[OF snap n i i] obtain d
        where d: "distance2 snap (snap ! i) m (int n) i i 1 = Inr d" "0 \<le> d" by blast
      let ?c = "randomize ((cells ! i ! m)\<lparr>velocity := min (velocity (cells ! i ! m)) d\<rparr>)
                  p (rnd kk)"
      let ?s' = "s[i := (s ! i)[m := ?c]]"
      have res: "decelerate_step snap (int n) p rnd i m t = Inr (?s', Suc kk)"
        using True by (simp add: decelerate_step_def t same d decelerate_Some)
      have ok': "road_ok ?s' n"
        by (rule road_ok_set_lane[OF oks i]) (simp add: len)
      have nth': "\<forall>l<2. ?s' ! l = (if l = i then (s ! i)[m := ?c] else s ! l)"
        using nth_set_lane[OF oks i] by simp
      have at_m: "slowed snap (int n) p rnd k (Suc kk) i m (cells ! i ! m) ?c"
        unfolding slowed_def using True d kk by auto
      have "\<forall>q<n. if q < Suc m
          then slowed snap (int n) p rnd k (Suc kk) i q (cells ! i ! q) (?s' ! i ! q)
          else ?s' ! i ! q = cells ! i ! q"
      proof (intro allI impI)
        fix q assume q: "q < n"
        show "if q < Suc m
          then slowed snap (int n) p rnd k (Suc kk) i q (cells ! i ! q) (?s' ! i ! q)
          else ?s' ! i ! q = cells ! i ! q"
        proof (cases "q = m")
          case True
          then show ?thesis using at_m nth' i len m by simp
        next
          case False
          have "?s' ! i ! q = s ! i ! q" using nth' i False by simp
          moreover have "q < m \<Longrightarrow> slowed snap (int n) p rnd k (Suc kk) i q (cells ! i ! q) (s ! i ! q)"
            using cellsq q slowed_mono[of snap "int n" p rnd k kk i q _ _ "Suc kk"] by auto
          moreover have "\<not> q < m \<Longrightarrow> s ! i ! q = cells ! i ! q"
            using cellsq q by auto
          ultimately show ?thesis using False by (auto simp: less_Suc_eq)
        qed
      qed
      then have "P (Suc m) (?s', Suc kk)"
        unfolding P_def using ok' kk others nth' by auto
      then show ?thesis using res by blast
    qed
  qed
  have "\<exists>t'. for_each (decelerate_step snap (int n) p rnd i) [0..<n] (cells, k) = Inr t' \<and> P n t'"
    by (rule for_upt_total[where P = P, OF P0 step])
  then obtain s' k' where s': "for_each (decelerate_step snap (int n) p rnd i) [0..<n] (cells, k)
      = Inr (s', k')" "P n (s', k')" by (metis surj_pair)
  have "decelerate_lane snap (int n) p rnd i (cells, k) = Inr (s', k')"
    using s'(1) ok i by (simp add: decelerate_lane_def road_ok_length road_ok_lane)
  then show ?thesis using s'(2) by (auto simp: P_def)
qed

lemma slowed_widen:
  "slowed snap num_cells p rnd lo hi i q c c' \<Longrightarrow> lo' \<le> lo \<Longrightarrow> hi \<le> hi'
    \<Longrightarrow> slowed snap num_cells p rnd lo' hi' i q c c'"
proof (cases "state c = 1")
  case False
  assume "slowed snap num_cells p rnd lo hi i q c c'"
  then show ?thesis using False by (simp add: slowed_def)
next
  case True
  assume "slowed snap num_cells p rnd lo hi i q c c'" and b: "lo' \<le> lo" "hi \<le> hi'"
  then obtain d r where dr: "distance2 snap (snap ! i) q num_cells i i 1 = Inr d" "0 \<le> d"
    "lo \<le> r" "r < hi" "c' = randomize (c\<lparr>velocity := min (velocity c) d\<rparr>) p (rnd r)"
    using True by (auto simp: slowed_def)
  have "lo' \<le> r" "r < hi'" using dr(3,4) b by simp_all
  then show ?thesis unfolding slowed_def using True dr(1,2,5) by auto
qed

lemma decelerate_phase_result:
  assumes snap: "road_ok snap n" and ok: "road_ok cells n"
  shows "\<exists>cells3 k'. for_each (decelerate_lane snap (int n) p rnd) [0, 1] (cells, k)
      = Inr (cells3, k')
    \<and> road_ok cells3 n \<and> k \<le> k'
    \<and> (\<forall>i<2. \<forall>q<n. slowed snap (int n) p rnd k k' i q (cells ! i ! q) (cells3 ! i ! q))"
proof -
  from decelerate_lane_result[OF snap ok, of 0 p rnd k] obtain s1 k1
    where s1: "decelerate_lane snap (int n) p rnd 0 (cells, k) = Inr (s1, k1)"
      "road_ok s1 n" "k \<le> k1" "\<forall>l<2. l \<noteq> 0 \<longrightarrow> s1 ! l = cells ! l"
      "\<forall>q<n. slowed snap (int n) p rnd k k1 0 q (cells ! 0 ! q) (s1 ! 0 ! q)"
    by auto
  from decelerate_lane_result[OF snap s1(2), of 1 p rnd k1] obtain s2 k2
    where s2: "decelerate_lane snap (int n) p rnd 1 (s1, k1) = Inr (s2, k2)"
      "road_ok s2 n" "k1 \<le> k2" "\<forall>l<2. l \<noteq> 1 \<longrightarrow> s2 ! l = s1 ! l"
      "\<forall>q<n. slowed snap (int n) p rnd k1 k2 1 q (s1 ! 1 ! q) (s2 ! 1 ! q)"
    by auto
  have run: "for_each (decelerate_lane snap (int n) p rnd) [0, 1] (cells, k) = Inr (s2, k2)"
    using s1(1) s2(1) by simp
  have lane0: "slowed snap (int n) p rnd k k2 0 q (cells ! 0 ! q) (s2 ! 0 ! q)" if "q < n" for q
  proof -
    have "s2 ! 0 = s1 ! 0" using s2(4) by simp
    then show ?thesis
      using s1(5) that slowed_widen[of snap "int n" p rnd k k1 0 q _ _ k k2] s2(3) by auto
  qed
  have lane1: "slowed snap (int n) p rnd k k2 1 q (cells ! 1 ! q) (s2 ! 1 ! q)" if "q < n" for q
  proof -
    have "s1 ! 1 = cells ! 1" using s1(4) by simp
    then show ?thesis
      using s2(5) that slowed_widen[of snap "int n" p rnd k1 k2 1 q _ _ k k2] s1(3) by auto
  qed
  have "\<forall>i<2. \<forall>q<n. slowed snap (int n) p rnd k k2 i q (cells ! i ! q) (s2 ! i ! q)"
    using lane0 lane1 by (auto dest!: less_2_cases)
  then show ?thesis using run s2(2) s1(3) s2(3) by (meson le_trans)
qed

lemma lane_ok_nth: "lane_ok mx cells \<longleftrightarrow> (\<forall>k<length cells. cell_ok mx (cells ! k))"
  by (simp add: lane_ok_def list_all_length)

lemma cell_ok_empty: "cell_ok mx empty_cell"
  by (simp add: cell_ok_def empty_cell_def)

lemma cell_ok_car: "0 \<le> v \<Longrightarrow> v \<le> mx \<Longrightarrow> cell_ok mx (car v)"
  by (simp add: cell_ok_def car_def)

lemma lane_ok_update: "lane_ok mx cells \<Longrightarrow> cell_ok mx c \<Longrightarrow> lane_ok mx (cells[k := c])"
  using set_update_subset_insert[of cells k c] by (auto simp: lane_ok_def list_all_iff)

lemma move2_result:
  assumes len: "length cells = n" and inv: "lane_ok mx cells"
  shows "\<exists>cells'. move2 cells (int n) = Inr cells' \<and> length cells' = n \<and> lane_ok mx cells'"
proof -
  define P where "P (m::nat) t \<longleftrightarrow> (case t of (s, flag) \<Rightarrow> length s = n \<and> lane_ok mx s)"
    for m and t :: "Cell list \<times> bool"
  have P0: "P 0 (cells, False)" by (simp add: P_def len inv)
  have step: "\<exists>t'. move2_step (int n) cells (m, cells ! m) t = Inr t' \<and> P (Suc m) t'"
    if m: "m < n" and Pt: "P m t" for m t
  proof -
    obtain s flag where t: "t = (s, flag)" by (cases t)
    have ls: "length s = n" and ok: "lane_ok mx s" using Pt by (simp_all add: P_def t)
    show ?thesis
    proof (cases "state (cells ! m) = 1")
      case False
      then show ?thesis using Pt by (simp add: move2_step_def t P_def)
    next
      case True
      have c: "cell_ok mx (cells ! m)" using inv m len by (simp add: lane_ok_nth)
      then have v: "0 \<le> velocity (cells ! m)" "velocity (cells ! m) \<le> mx"
        using True by (auto simp: cell_ok_def)
      have n: "0 < n" using m by simp
      let ?t = "(int m + velocity (cells ! m)) mod int n"
      have t0: "0 \<le> ?t" "?t < int n" using n by simp_all
      have idx: "py_index (length s) ?t = Inr (nat ?t)"
        using t0 ls by (simp add: py_index_ok)
      have car: "cell_ok mx (car (velocity (cells ! m)))" using v by (rule cell_ok_car)
      have "\<exists>s' flag'. move2_step (int n) cells (m, cells ! m) t = Inr (s', flag')
          \<and> length s' = n \<and> lane_ok mx s'"
        using True n idx ls ok car
        by (simp add: move2_step_def t py_mod_ok lane_ok_update cell_ok_empty)
      then show ?thesis by (auto simp: P_def)
    qed
  qed
  have "\<exists>t'. for_each (\<lambda>m. move2_step (int n) cells (m, cells ! m)) [0..<n] (cells, False) = Inr t'
      \<and> P n t'"
    by (rule for_upt_total[where P = P, OF P0 step])
  then obtain s' flag where "for_each (\<lambda>m. move2_step (int n) cells (m, cells ! m)) [0..<n]
      (cells, False) = Inr (s', flag)" "P n (s', flag)" by (metis surj_pair)
  then show ?thesis
    by (simp add: move2_def enumerate_upt for_each_map len P_def)
qed

lemma move_phase_result:
  assumes ok: "road_ok cells n" and l0: "lane_ok m0 (cells ! 0)" and l1: "lane_ok m1 (cells ! 1)"
  shows "\<exists>cells4. for_each (move_lane (int n)) [0, 1] cells = Inr cells4 \<and> road_ok cells4 n
    \<and> lane_ok m0 (cells4 ! 0) \<and> lane_ok m1 (cells4 ! 1)"
proof -
  have len: "length cells = 2" "length (cells ! 0) = n" "length (cells ! 1) = n"
    using ok by (simp_all add: road_ok_def)
  from move2_result[OF len(2) l0] obtain a
    where a: "move2 (cells ! 0) (int n) = Inr a" "length a = n" "lane_ok m0 a" by blast
  from move2_result[OF len(3) l1] obtain b
    where b: "move2 (cells ! 1) (int n) = Inr b" "length b = n" "lane_ok m1 b" by blast
  have "move_lane (int n) 0 cells = Inr (cells[0 := a])"
    using a(1) len(1) by (simp add: move_lane_def)
  moreover have "move_lane (int n) 1 (cells[0 := a]) = Inr (cells[0 := a, 1 := b])"
    using b(1) len(1) by (simp add: move_lane_def)
  ultimately have "for_each (move_lane (int n)) [0, 1] cells = Inr (cells[0 := a, 1 := b])"
    by simp
  moreover have "road_ok (cells[0 := a, 1 := b]) n" "cells[0 := a, 1 := b] ! 0 = a"
    "cells[0 := a, 1 := b] ! 1 = b"
    using len a(2) b(2) by (simp_all add: road_ok_def)
  ultimately show ?thesis using a(3) b(3) by auto
qed

lemma update2_phases:
  assumes ok: "road_ok cells n" and mv: "2 \<le> length max_vels"
  shows "\<exists>snap cells2 cells3 k'.
      for_each (accelerate_lane max_vels) [0, 1] cells = Inr snap
    \<and> for_each (lane_change_lane snap (int n) max_vels) [0, 1] snap = Inr cells2
    \<and> for_each (decelerate_lane snap (int n) p rnd) [0, 1] (cells2, k) = Inr (cells3, k')
    \<and> update2 cells (int n) max_vels p rnd k
        = bind_err (for_each (move_lane (int n)) [0, 1] cells3) (\<lambda>cells4. Inr (cells4, k'))
    \<and> road_ok snap n \<and> road_ok cells2 n \<and> road_ok cells3 n
    \<and> (\<forall>i<2. \<forall>j<n. snap ! i ! j = (if state (cells ! i ! j) = 1
                                 then accelerate (cells ! i ! j) (max_vels ! i)
                                 else cells ! i ! j))
    \<and> (\<forall>j<n. cells2 ! 0 ! j = (if granted snap (int n) max_vels 0 j snap then empty_cell
                                else if granted snap (int n) max_vels 1 j snap
                                then car (velocity (snap ! 1 ! j)) else snap ! 0 ! j)
           \<and> cells2 ! 1 ! j = (if granted snap (int n) max_vels 0 j snap
                                then car (velocity (snap ! 0 ! j))
                                else if granted snap (int n) max_vels 1 j snap then empty_cell
                                else snap ! 1 ! j))
    \<and> (\<forall>i<2. \<forall>j<n. slowed snap (int n) p rnd k k' i j (cells2 ! i ! j) (cells3 ! i ! j))"
proof -
  from accelerate_phase_result[OF ok mv] obtain snap
    where snap: "for_each (accelerate_lane max_vels) [0, 1] cells = Inr snap" "road_ok snap n"
      "\<forall>i<2. \<forall>j<n. snap ! i ! j = (if state (cells ! i ! j) = 1
          then accelerate (cells ! i ! j) (max_vels ! i) else cells ! i ! j)"
    by blast
  from lane_change_phase_result[OF snap(2) mv] obtain cells1 cells2
    where c2: "for_each (lane_change_lane snap (int n) max_vels) [0, 1] snap = Inr cells2"
      "road_ok cells2 n"
      "\<forall>k<n. cells1 ! 0 ! k = (if granted snap (int n) max_vels 0 k snap then empty_cell
                                else snap ! 0 ! k)
           \<and> cells1 ! 1 ! k = (if granted snap (int n) max_vels 0 k snap
                                then car (velocity (snap ! 0 ! k)) else snap ! 1 ! k)
           \<and> cells2 ! 0 ! k = (if granted snap (int n) max_vels 0 k snap then empty_cell
                                else if granted snap (int n) max_vels 1 k snap
                                then car (velocity (snap ! 1 ! k)) else snap ! 0 ! k)
           \<and> cells2 ! 1 ! k = (if granted snap (int n) max_vels 0 k snap
                                then car (velocity (snap ! 0 ! k))
                                else if granted snap (int n) max_vels 1 k snap then empty_cell
                                else snap ! 1 ! k)"
    by blast
  from decelerate_phase_result[OF snap(2) c2(2), of p rnd k] obtain cells3 k'
    where c3: "for_each (decelerate_lane snap (int n) p rnd) [0, 1] (cells2, k) = Inr (cells3, k')"
      "road_ok cells3 n"
      "\<forall>i<2. \<forall>q<n. slowed snap (int n) p rnd k k' i q (cells2 ! i ! q) (cells3 ! i ! q)"
    by blast
  have "update2 cells (int n) max_vels p rnd k
        = bind_err (for_each (move_lane (int n)) [0, 1] cells3) (\<lambda>cells4. Inr (cells4, k'))"
    unfolding update2_def by (simp only: snap(1) c2(1) c3(1) bind_err.simps prod.case)
  then show ?thesis using snap c2 c3 by blast
qed

section \<open>Velocity bounds through the update steps\<close>

lemma cell_ok_accelerate:
  "cell_ok mx c \<Longrightarrow> state c = 1 \<Longrightarrow> cell_ok mx (accelerate c mx)"
  by (auto simp: cell_ok_def accelerate_def)

lemma cell_ok_slow_dally:
  "cell_ok mx c \<Longrightarrow> state c = 1 \<Longrightarrow> 0 \<le> d
    \<Longrightarrow> cell_ok mx (randomize (c\<lparr>velocity := min (velocity c) d\<rparr>) p r)"
  by (auto simp: cell_ok_def randomize_def)

lemma cell_ok_slowed:
  "cell_ok mx c \<Longrightarrow> slowed snap num_cells p rnd lo hi i q c c' \<Longrightarrow> cell_ok mx c'"
  by (cases "state c = 1") (auto simp: slowed_def cell_ok_slow_dally)

lemma update2_result:
  assumes ok: "road_ok cells n" and mv: "2 \<le> length max_vels"
    and l0: "lane_ok (max_vels ! 0) (cells ! 0)" and l1: "lane_ok (max_vels ! 1) (cells ! 1)"
  shows "\<exists>cells' k'. update2 cells (int n) max_vels p rnd k = Inr (cells', k')
    \<and> road_ok cells' n
    \<and> lane_ok (max_vels ! 0) (cells' ! 0) \<and> lane_ok (max_vels ! 1) (cells' ! 1)"
proof -
  from update2_phases[OF ok mv, of p rnd k] obtain snap cells2 cells3 k'
    where r: "update2 cells (int n) max_vels p rnd k
        = bind_err (for_each (move_lane (int n)) [0, 1] cells3) (\<lambda>cells4. Inr (cells4, k'))"
      "road_ok snap n" "road_ok cells2 n" "road_ok cells3 n"
      "\<forall>i<2. \<forall>j<n. snap ! i ! j = (if state (cells ! i ! j) = 1
                                 then accelerate (cells ! i ! j) (max_vels ! i)
                                 else cells ! i ! j)"
      "\<forall>j<n. cells2 ! 0 ! j = (if granted snap (int n) max_vels 0 j snap then empty_cell
                                else if granted snap (int n) max_vels 1 j snap
                                then car (velocity (snap ! 1 ! j)) else snap ! 0 ! j)
           \<and> cells2 ! 1 ! j = (if granted snap (int n) max_vels 0 j snap
                                then car (velocity (snap ! 0 ! j))
                                else if granted snap (int n) max_vels 1 j snap then empty_cell
                                else snap ! 1 ! j)"
      "\<forall>i<2. \<forall>j<n. slowed snap (int n) p rnd k k' i j (cells2 ! i ! j) (cells3 ! i ! j)"
    by blast
  have in0: "cell_ok (max_vels ! i) (cells ! i ! j)" if "i < 2" "j < n" for i j
    using that l0 l1 ok by (auto simp: lane_ok_nth road_ok_def dest!: less_2_cases)
  have in1: "cell_ok (max_vels ! i) (snap ! i ! j)" if "i < 2" "j < n" for i j
    using in0[OF that] r(5) that by (simp add: cell_ok_accelerate)
  have moved: "cell_ok (max_vels ! ((i + 1) mod 2)) (car (velocity (snap ! i ! j)))"
    if "i < 2" "j < n" "granted snap (int n) max_vels i j snap" for i j
  proof -
    from granted_facts[OF r(2) that(1,2) mv refl that(3)]
    have "state (snap ! i ! j) = 1" "velocity (snap ! i ! j) \<le> max_vels ! ((i + 1) mod 2)"
      by simp_all
    moreover have "0 \<le> velocity (snap ! i ! j)"
      using in1[OF that(1,2)] calculation(1) by (simp add: cell_ok_def)
    ultimately show ?thesis by (simp add: cell_ok_car)
  qed
  have in2: "cell_ok (max_vels ! 0) (cells2 ! 0 ! j) \<and> cell_ok (max_vels ! 1) (cells2 ! 1 ! j)"
    if j: "j < n" for j
    using r(6) j in1[of 0 j] in1[of 1 j] moved[of 0 j] moved[of 1 j]
    by (simp add: cell_ok_empty)
  have in3: "cell_ok (max_vels ! i) (cells3 ! i ! j)" if "i < 2" "j < n" for i j
  proof -
    have "cell_ok (max_vels ! i) (cells2 ! i ! j)"
      using in2[OF that(2)] that(1) by (auto dest!: less_2_cases)
    then show ?thesis using r(7) that cell_ok_slowed by blast
  qed
  have "lane_ok (max_vels ! 0) (cells3 ! 0)" "lane_ok (max_vels ! 1) (cells3 ! 1)"
    using in3 r(4) by (simp_all add: lane_ok_nth road_ok_def)
  from move_phase_result[OF r(4) this] obtain cells4
    where "for_each (move_lane (int n)) [0, 1] cells3 = Inr cells4" "road_ok cells4 n"
      "lane_ok (max_vels ! 0) (cells4 ! 0)" "lane_ok (max_vels ! 1) (cells4 ! 1)" by blast
  then show ?thesis using r(1) by simp
qed

lemma distance_loop_total:
  assumes "0 < length cells"
  shows "\<exists>r. distance_loop cells index (int (length cells)) is = Inr r
    \<and> (r = None \<longrightarrow> (\<forall>i\<in>set is.
          state (cells ! nat ((int i + int index) mod int (length cells))) \<noteq> 1))
    \<and> (\<forall>d. r = Some d \<longrightarrow> (\<exists>i\<in>set is. d = int i - 1))"
proof (induction "is")
  case Nil
  show ?case by simp
next
  case (Cons i rest)
  then show ?case using assms by (auto simp: py_mod_ok py_get_mod)
qed

lemma reach_other_cell:
  assumes "index < n" "q < n" "q \<noteq> index"
  shows "\<exists>i. 0 < i \<and> i < n \<and> nat ((int i + int index) mod int n) = q"
proof (cases "index < q")
  case True
  have "nat ((int (q - index) + int index) mod int n) = q"
    using True assms(2) by (simp add: nat_mod_distrib nat_add_distrib)
  then show ?thesis using True assms(2) by (intro exI[of _ "q - index"]) auto
next
  case False
  then have lt: "q < index" using assms(3) by simp
  have "(q + n - index + index) mod n = q" using lt assms by simp
  then have "nat ((int (q + n - index) + int index) mod int n) = q"
    by (metis nat_int of_nat_add zmod_int)
  then show ?thesis using lt assms by (intro exI[of _ "q + n - index"]) auto
qed

lemma distance_finds:
  assumes "index < length cells" "q < length cells" "q \<noteq> index" "state (cells ! q) = 1"
  shows "\<exists>d. distance cells index (int (length cells)) = Inr (Some d) \<and> 0 \<le> d"
proof -
  have pos: "0 < length cells" using assms(1) by auto
  from distance_loop_total[OF pos, of index "[1..<length cells]"] obtain r
    where r: "distance_loop cells index (int (length cells)) [1..<length cells] = Inr r"
      "r = None \<longrightarrow> (\<forall>i\<in>set [1..<length cells].
          state (cells ! nat ((int i + int index) mod int (length cells))) \<noteq> 1)"
      "\<forall>d. r = Some d \<longrightarrow> (\<exists>i\<in>set [1..<length cells]. d = int i - 1)"
    by blast
  from reach_other_cell[OF assms(1,2,3)] obtain i
    where i: "0 < i" "i < length cells"
      "nat ((int i + int index) mod int (length cells)) = q" by blast
  have "r \<noteq> None" using r(2) i assms(4) by auto
  then obtain d where d: "r = Some d" by auto
  then have "0 \<le> d" using r(3) by auto
  then show ?thesis using r(1) d by (simp add: distance_def)
qed

lemma another_car:
  assumes "num_cars cells \<noteq> 1" "m < length cells" "state (cells ! m) = 1"
  shows "\<exists>q<length cells. q \<noteq> m \<and> state (cells ! q) = 1"
proof (rule ccontr)
  assume "\<not> ?thesis"
  then have none: "\<And>q. q < length cells \<Longrightarrow> q \<noteq> m \<Longrightarrow> state (cells ! q) \<noteq> 1" by blast
  have split: "cells = take m cells @ cells ! m # drop (Suc m) cells"
    using assms(2) by (simp add: id_take_nth_drop)
  have "filter (\<lambda>c. state c = 1) (take m cells) = []"
    using none assms(2) by (auto simp: filter_empty_conv in_set_conv_nth)
  moreover have "filter (\<lambda>c. state c = 1) (drop (Suc m) cells) = []"
    using none by (auto simp: filter_empty_conv in_set_conv_nth)
  ultimately have "filter (\<lambda>c. state c = 1) cells = [cells ! m]"
    using assms(3) by (subst split) simp
  then show False using assms(1) by (simp add: num_cars_def)
qed

lemma move_result:
  assumes len: "length cells = n" and inv: "lane_ok mx cells"
  shows "\<exists>cells' out. move cells (int n) = Inr (cells', out) \<and> length cells' = n
    \<and> lane_ok mx cells'"
proof -
  define P where "P (m::nat) t \<longleftrightarrow> (case t of (s, out) \<Rightarrow> length s = n \<and> lane_ok mx s)"
    for m and t :: "Cell list \<times> message list"
  have P0: "P 0 (cells, [])" by (simp add: P_def len inv)
  have step: "\<exists>t'. move_step (int n) (m, cells ! m) t = Inr t' \<and> P (Suc m) t'"
    if m: "m < n" and Pt: "P m t" for m t
  proof -
    obtain s out where t: "t = (s, out)" by (cases t)
    have ls: "length s = n" and ok: "lane_ok mx s" using Pt by (simp_all add: P_def t)
    show ?thesis
    proof (cases "state (cells ! m) = 1")
      case False
      then show ?thesis using Pt by (simp add: move_step_def t P_def)
    next
      case True
      have c: "cell_ok mx (cells ! m)" using inv m len by (simp add: lane_ok_nth)
      then have v: "0 \<le> velocity (cells ! m)" "velocity (cells ! m) \<le> mx"
        using True by (auto simp: cell_ok_def)
      have n: "0 < n" using m by simp
      let ?t = "(int m + velocity (cells ! m)) mod int n"
      have t0: "0 \<le> ?t" "?t < int n" using n by simp_all
      have idx: "py_index (length s) ?t = Inr (nat ?t)"
        using t0 ls by (simp add: py_index_ok)
      have car: "cell_ok mx (car (velocity (cells ! m)))" using v by (rule cell_ok_car)
      have "\<exists>s' out'. move_step (int n) (m, cells ! m) t = Inr (s', out')
          \<and> length s' = n \<and> lane_ok mx s'"
        using True n idx ls ok car
        by (simp add: move_step_def t py_mod_ok lane_ok_update cell_ok_empty)
      then show ?thesis by (auto simp: P_def)
    qed
  qed
  have "\<exists>t'. for_each (\<lambda>m. move_step (int n) (m, cells ! m)) [0..<n] (cells, []) = Inr t'
      \<and> P n t'"
    by (rule for_upt_total[where P = P, OF P0 step])
  then obtain s' out where "for_each (\<lambda>m. move_step (int n) (m, cells ! m)) [0..<n]
      (cells, []) = Inr (s', out)" "P n (s', out)" by (metis surj_pair)
  then show ?thesis
    by (simp add: move_def enumerate_upt for_each_map len P_def)
qed

lemma update_loop_result:
  assumes len: "length cells = n" and inv: "lane_ok mx cells" and cars: "num_cars cells \<noteq> 1"
  shows "\<exists>cells' k'. for_each (update_step (int n) mx p rnd) [0..<n] (cells, k) = Inr (cells', k')
    \<and> length cells' = n \<and> lane_ok mx cells'"
proof -
  define P where "P (m::nat) t \<longleftrightarrow> (case t of (s, kk) \<Rightarrow> length s = n \<and> lane_ok mx s
      \<and> (\<forall>q<n. state (s ! q) = state (cells ! q)))"
    for m and t :: "Cell list \<times> nat"
  have P0: "P 0 (cells, k)" by (simp add: P_def len inv)
  have step: "\<exists>t'. update_step (int n) mx p rnd m t = Inr t' \<and> P (Suc m) t'"
    if m: "m < n" and Pt: "P m t" for m t
  proof -
    obtain s kk where t: "t = (s, kk)" by (cases t)
    have ls: "length s = n" and ok: "lane_ok mx s"
      and st: "\<forall>q<n. state (s ! q) = state (cells ! q)"
      using Pt by (simp_all add: P_def t)
    show ?thesis
    proof (cases "state (s ! m) = 1")
      case False
      then show ?thesis using Pt by (simp add: update_step_def t P_def)
    next
      case True
      then have cm: "state (cells ! m) = 1" using st m by simp
      from another_car[OF cars _ this] m len obtain q
        where q: "q < n" "q \<noteq> m" "state (cells ! q) = 1" by auto
      then have "state (s ! q) = 1" using st by simp
      from distance_finds[of m s q] this q m ls obtain d
        where d: "distance s m (int n) = Inr (Some d)" "0 \<le> d" by auto
      have c: "cell_ok mx (s ! m)" using ok m ls by (simp add: lane_ok_nth)
      let ?a = "accelerate (s ! m) mx"
      have a: "cell_ok mx ?a" "state ?a = 1"
        using c True by (simp_all add: cell_ok_accelerate) (simp add: accelerate_def)
      let ?c = "randomize (?a\<lparr>velocity := min (velocity ?a) d\<rparr>) p (rnd kk)"
      have res: "update_step (int n) mx p rnd m t = Inr (s[m := ?c], Suc kk)"
        using True by (simp add: update_step_def t d decelerate_Some)
      have c': "cell_ok mx ?c" using a d(2) by (rule cell_ok_slow_dally)
      have sc: "state ?c = 1" using a(2) by (simp add: randomize_def)
      have "state (s[m := ?c] ! q) = state (cells ! q)" if "q < n" for q
      proof (cases "q = m")
        case True
        then show ?thesis using sc cm ls m by simp
      next
        case False
        then show ?thesis using st that by simp
      qed
      then have "P (Suc m) (s[m := ?c], Suc kk)"
        using ls ok c' by (simp add: P_def lane_ok_update)
      then show ?thesis using res by blast
    qed
  qed
  have "\<exists>t'. for_each (update_step (int n) mx p rnd) [0..<n] (cells, k) = Inr t' \<and> P n t'"
    by (rule for_upt_total[where P = P, OF P0 step])
  then obtain s' k' where "for_each (update_step (int n) mx p rnd) [0..<n] (cells, k)
      = Inr (s', k')" "P n (s', k')" by (metis surj_pair)
  then show ?thesis by (auto simp: P_def)
qed

lemma update_result:
  assumes len: "length cells = n" and inv: "lane_ok mx cells" and cars: "num_cars cells \<noteq> 1"
  shows "\<exists>cells' out k'. update cells (int n) mx p rnd k = Inr (cells', out, k')
    \<and> length cells' = n \<and> lane_ok mx cells'"
proof -
  from update_loop_result[OF assms, of p rnd k] obtain s k'
    where s: "for_each (update_step (int n) mx p rnd) [0..<n] (cells, k) = Inr (s, k')"
      "length s = n" "lane_ok mx s" by blast
  from move_result[OF s(2,3)] obtain s' out
    where "move s (int n) = Inr (s', out)" "length s' = n" "lane_ok mx s'" by blast
  then show ?thesis using s(1) len by (simp add: update_def)
qed

lemma update_one_car:
  assumes "num_cells = int (length cells)" and "num_cars cells = 1"
  shows "update cells num_cells max_vel p rnd k = Inl TypeError"
proof -
  from single_car_position[OF assms(2)]
  obtain j where j: "j < length cells" "state (cells ! j) = 1"
    "\<And>i. i < length cells \<Longrightarrow> i \<noteq> j \<Longrightarrow> state (cells ! i) \<noteq> 1"
    by blast
  have none: "distance cells j num_cells = Inr None"
    using distance_alone[OF j(1) j(3)] assms(1) by simp
  have at_j: "update_step num_cells max_vel p rnd j (cells, k) = Inl TypeError"
    by (simp add: update_step_def j(2) none decelerate_def)
  have before: "for_each (update_step num_cells max_vel p rnd) [0..<j] (cells, k) = Inr (cells, k)"
    by (rule update_loop_skips) (use j in auto)
  have "[0..<length cells] = [0..<j] @ j # [Suc j..<length cells]"
    using j(1) by (metis le0 upt_conv_Cons upt_add_eq_append le_add_diff_inverse less_imp_le_nat)
  then have "for_each (update_step num_cells max_vel p rnd) [0..<length cells] (cells, k)
      = Inl TypeError"
    by (simp add: for_each_append before at_j)
  then show ?thesis by (simp add: update_def)
qed

section \<open>Vehicle conservation (claim C1)\<close>

text \<open>
  Claim C1: the number of occupied cells of the whole road is the same after an update
  step as before it. The two-lane update breaks this. On a road of six cells whose right
  lane holds cars with velocities 2, 3 and 3 at the cells 0, 1 and 3 and whose left lane is
  empty, with speed limits 5 and 5 and no dallying, all three cars change to the left
  lane, none decelerates (the snapshot of the left lane is empty), and the move phase
  leaves two cars of the three.
\<close>

theorem update2_loses_a_vehicle:
  "total_cars [[empty_cell, empty_cell, empty_cell, empty_cell, empty_cell, empty_cell],
               [car 2, car 3, empty_cell, car 3, empty_cell, empty_cell]] = 3 \<and>
   update2 [[empty_cell, empty_cell, empty_cell, empty_cell, empty_cell, empty_cell],
            [car 2, car 3, empty_cell, car 3, empty_cell, empty_cell]]
       6 [5, 5] 0 (\<lambda>k. 1 / 2) 0
     = Inr ([[empty_cell, car 4, empty_cell, empty_cell, empty_cell, car 4],
             [empty_cell, empty_cell, empty_cell, empty_cell, empty_cell, empty_cell]], 3) \<and>
   total_cars [[empty_cell, car 4, empty_cell, empty_cell, empty_cell, car 4],
               [empty_cell, empty_cell, empty_cell, empty_cell, empty_cell, empty_cell]] = 2"
  by code_simp

section \<open>The gap of a lane without another vehicle (claim C5)\<close>

text \<open>
  Claim C5: the gap query returns the number of empty cells up to the first car found, and
  the length of the road when the lane scanned holds no other car, in the single-lane
  model as in the two-lane model. On a lane of three cells whose only car is at cell 0 the
  two-lane query returns 3, and the single-lane query returns \<^verbatim>\<open>None\<close>.
\<close>

theorem distance_alone_returns_None:
  "distance [car 0, empty_cell, empty_cell] 0 3 = Inr None \<and>
   distance2 [[car 0, empty_cell, empty_cell], [empty_cell, empty_cell, empty_cell]]
     [car 0, empty_cell, empty_cell] 0 3 0 0 1 = Inr 3"
  by code_simp

section \<open>Dallying with probability zero (claim C9)\<close>

text \<open>
  Claim C9: with \<open>p = 0\<close> the dally step leaves every velocity unchanged for every draw
  in \<open>[0, 1)\<close>. The test of \<^verbatim>\<open>randomize\<close> is \<^verbatim>\<open>random.random() <= p\<close>, so the
  draw 0 decrements the velocity at \<open>p = 0\<close>: a car with velocity 3 leaves with 2.
\<close>

theorem randomize_zero_draw_dallies:
  "randomize (car 3) 0 0 = car 2"
  by (simp add: randomize_def car_def)

section \<open>The single-lane update on a lane with one car (claim C10)\<close>

text \<open>
  Claim C10: on a single-lane road that holds exactly one car, the update step does not
  complete. The scan of \<^verbatim>\<open>distance\<close> finds no other car and returns \<^verbatim>\<open>None\<close>, and
  the comparison of \<^verbatim>\<open>decelerate\<close> with it raises \<^verbatim>\<open>TypeError\<close>, whatever the
  velocity, the speed limit, the dally probability and the random source are.
\<close>

theorem update_single_vehicle_fails:
  assumes "num_cells = int (length cells)" and "num_cars cells = 1"
  shows "update cells num_cells max_vel p rnd k = Inl TypeError"
  using assms by (rule update_one_car)

theorem update_single_vehicle_fails_witness:
  "update [empty_cell, car 2, empty_cell] 3 5 0 (\<lambda>k. 1 / 2) 0 = Inl TypeError"
proof -
  have "num_cars [empty_cell, car 2, empty_cell] = 1" by code_simp
  then show ?thesis
    using update_single_vehicle_fails[of 3 "[empty_cell, car 2, empty_cell]"] by simp
qed

section \<open>The lane-change evaluator (claim C3)\<close>

text \<open>
  Claim C3: \<^verbatim>\<open>can_change_lanes\<close> returns true if and only if both guards hold (the
  velocity is at most the speed limit of the other lane, and the cell beside the car in the
  other lane has state 0) and the four safety conditions hold, the gaps being those of the
  distance query in the lane and direction concerned and the neighbour velocities those of
  the cells just beyond the gaps; and when it returns false the lane-change step leaves the
  road as it is. Stated for a road of two lanes of \<open>n\<close> cells, a lane \<open>i\<close>, a cell
  \<open>index\<close> of it and two speed limits.
\<close>

theorem can_change_lanes_iff:
  assumes "road_ok cells n" and "i < 2" and "index < n" and "2 \<le> length max_vels"
  shows "\<exists>ga gb gao gbo.
      distance2 cells (cells ! i) index (int n) i i 1 = Inr ga
    \<and> distance2 cells (cells ! i) index (int n) i i (- 1) = Inr gb
    \<and> distance2 cells (cells ! i) index (int n) i ((i + 1) mod 2) 1 = Inr gao
    \<and> distance2 cells (cells ! i) index (int n) i ((i + 1) mod 2) (- 1) = Inr gbo
    \<and> can_change_lanes cells cell i index (int n) max_vels =
        Inr (velocity cell \<le> max_vels ! ((i + 1) mod 2)
           \<and> state (cells ! ((i + 1) mod 2) ! index) = 0
           \<and> velocity cell
               < velocity (cells ! i ! nat ((int index + ga + 1) mod int n)) - 1 + ga + 1
           \<and> gao \<ge> velocity cell
           \<and> velocity (cells ! i ! nat ((int index - (gb + 1)) mod int n)) - (gb + 1)
               < velocity cell - 1
           \<and> velocity (cells ! ((i + 1) mod 2) ! nat ((int index - (gbo + 1)) mod int n))
                 - (gbo + 1)
               < velocity cell - 1)
    \<and> (\<forall>live. can_change_lanes cells (cells ! i ! index) i index (int n) max_vels = Inr False
          \<longrightarrow> lane_change_step cells (int n) max_vels i index live = Inr live)"
proof -
  have n: "0 < n" using assms(3) by simp
  have j: "(i + 1) mod 2 < (2::nat)" by simp
  from distance2_total[OF assms(1) n assms(2,2)] obtain ga
    where ga: "distance2 cells (cells ! i) index (int n) i i 1 = Inr ga" by blast
  from distance2_total[OF assms(1) n assms(2,2)] obtain gb
    where gb: "distance2 cells (cells ! i) index (int n) i i (- 1) = Inr gb" by blast
  from distance2_total[OF assms(1) n assms(2) j] obtain gao
    where gao: "distance2 cells (cells ! i) index (int n) i ((i + 1) mod 2) 1 = Inr gao"
    by blast
  from distance2_total[OF assms(1) n assms(2) j] obtain gbo
    where gbo: "distance2 cells (cells ! i) index (int n) i ((i + 1) mod 2) (- 1) = Inr gbo"
    by blast
  have stay: "lane_change_step cells (int n) max_vels i index live = Inr live"
    if "can_change_lanes cells (cells ! i ! index) i index (int n) max_vels = Inr False"
    for live
    using that by (simp add: lane_change_step_def lane_change_test_def ga)
  show ?thesis
    using ga gb gao gbo stay
      can_change_lanes_result[OF assms(1) n assms(2,3,4) ga gb gao gbo, of cell]
    by blast
qed

theorem can_change_lanes_iff_witness:
  "road_ok [[car 2, car 2, empty_cell, empty_cell, empty_cell],
            [empty_cell, empty_cell, empty_cell, empty_cell, empty_cell]] 5
   \<and> 2 \<le> length [5, 7 :: int]
   \<and> can_change_lanes [[car 2, car 2, empty_cell, empty_cell, empty_cell],
            [empty_cell, empty_cell, empty_cell, empty_cell, empty_cell]] (car 2) 0 0 5 [5, 7]
       = Inr False
   \<and> lane_change_step [[car 2, car 2, empty_cell, empty_cell, empty_cell],
            [empty_cell, empty_cell, empty_cell, empty_cell, empty_cell]] 5 [5, 7] 0 0
          [[car 2, car 2, empty_cell, empty_cell, empty_cell],
            [empty_cell, empty_cell, empty_cell, empty_cell, empty_cell]]
       = Inr [[car 2, car 2, empty_cell, empty_cell, empty_cell],
            [empty_cell, empty_cell, empty_cell, empty_cell, empty_cell]]"
proof -
  let ?X = "[[car 2, car 2, empty_cell, empty_cell, empty_cell],
            [empty_cell, empty_cell, empty_cell, empty_cell, empty_cell]]"
  have ok: "road_ok ?X 5" by (simp add: road_ok_def)
  have mv: "2 \<le> length [5, 7 :: int]" by simp
  have no: "can_change_lanes ?X (car 2) 0 0 5 [5, 7] = Inr False" by code_simp
  have i: "(0::nat) < 2" and idx: "(0::nat) < 5" by simp_all
  from can_change_lanes_iff[OF ok i idx mv, of "car 2"]
  have "can_change_lanes ?X (?X ! 0 ! 0) 0 0 (int 5) [5, 7] = Inr False
      \<longrightarrow> lane_change_step ?X (int 5) [5, 7] 0 0 ?X = Inr ?X"
    by blast
  then have "lane_change_step ?X 5 [5, 7] 0 0 ?X = Inr ?X"
    using no by simp
  then show ?thesis using ok mv no by blast
qed


section \<open>One lane change per vehicle and step (claim C8)\<close>

text \<open>
  Claim C8: a car that changed lanes in this step's lane-change phase is not granted a
  second change when the loop over the other lane reaches its new cell. The loop over lane 0
  runs first. When it grants the car at cell \<open>index\<close> of lane 0 a change, the car sits in
  lane 1 afterwards with its velocity, the condition tested at that cell in the loop over
  lane 1 is false on every live road that holds this cell, and after the loop over lane 1
  the car is still in lane 1 and its old cell is empty. (A car that changes from lane 1 to
  lane 0 is not visited again, the loop over lane 0 being over.)
\<close>

theorem no_second_lane_change:
  assumes "road_ok snap n" and "2 \<le> length max_vels" and "index < n"
    and "granted snap (int n) max_vels 0 index snap"
  shows "\<exists>cells1 cells2.
      lane_change_lane snap (int n) max_vels 0 snap = Inr cells1
    \<and> cells1 ! 0 ! index = empty_cell
    \<and> cells1 ! 1 ! index = car (velocity (snap ! 0 ! index))
    \<and> (\<forall>live. live ! 1 ! index = cells1 ! 1 ! index
          \<longrightarrow> lane_change_test snap (int n) max_vels 1 index live = Inr False)
    \<and> lane_change_lane snap (int n) max_vels 1 cells1 = Inr cells2
    \<and> cells2 ! 0 ! index = empty_cell
    \<and> cells2 ! 1 ! index = car (velocity (snap ! 0 ! index))"
proof -
  from lane_change_phase_result[OF assms(1,2)]
  obtain cells1 cells2 where r: "lane_change_lane snap (int n) max_vels 0 snap = Inr cells1"
    "lane_change_lane snap (int n) max_vels 1 cells1 = Inr cells2"
    "\<forall>k<n. cells1 ! 0 ! k = (if granted snap (int n) max_vels 0 k snap then empty_cell
                                else snap ! 0 ! k)
           \<and> cells1 ! 1 ! k = (if granted snap (int n) max_vels 0 k snap
                                then car (velocity (snap ! 0 ! k)) else snap ! 1 ! k)
           \<and> cells2 ! 0 ! k = (if granted snap (int n) max_vels 0 k snap then empty_cell
                                else if granted snap (int n) max_vels 1 k snap
                                then car (velocity (snap ! 1 ! k)) else snap ! 0 ! k)
           \<and> cells2 ! 1 ! k = (if granted snap (int n) max_vels 0 k snap
                                then car (velocity (snap ! 0 ! k))
                                else if granted snap (int n) max_vels 1 k snap then empty_cell
                                else snap ! 1 ! k)"
    by blast
  from r(3) assms(3,4) have at: "cells1 ! 0 ! index = empty_cell"
    "cells1 ! 1 ! index = car (velocity (snap ! 0 ! index))"
    "cells2 ! 0 ! index = empty_cell"
    "cells2 ! 1 ! index = car (velocity (snap ! 0 ! index))"
    by simp_all
  have "lane_change_test snap (int n) max_vels 1 index live = Inr False"
    if "live ! 1 ! index = cells1 ! 1 ! index" for live
    using not_granted_after_change[OF assms(1) _ assms(3,2,4), of live] that at(2) by simp
  then show ?thesis using r(1,2) at by blast
qed

theorem no_second_lane_change_witness:
  "road_ok [[car 2, car 3, empty_cell, empty_cell, empty_cell],
            [empty_cell, empty_cell, empty_cell, empty_cell, empty_cell]] 5
   \<and> granted [[car 2, car 3, empty_cell, empty_cell, empty_cell],
            [empty_cell, empty_cell, empty_cell, empty_cell, empty_cell]] 5 [5, 7] 0 0
        [[car 2, car 3, empty_cell, empty_cell, empty_cell],
            [empty_cell, empty_cell, empty_cell, empty_cell, empty_cell]]
   \<and> (\<exists>cells1 cells2.
        lane_change_lane [[car 2, car 3, empty_cell, empty_cell, empty_cell],
            [empty_cell, empty_cell, empty_cell, empty_cell, empty_cell]] 5 [5, 7] 0
          [[car 2, car 3, empty_cell, empty_cell, empty_cell],
            [empty_cell, empty_cell, empty_cell, empty_cell, empty_cell]] = Inr cells1
      \<and> cells1 ! 1 ! 0 = car 2
      \<and> lane_change_test [[car 2, car 3, empty_cell, empty_cell, empty_cell],
            [empty_cell, empty_cell, empty_cell, empty_cell, empty_cell]] 5 [5, 7] 1 0 cells1
          = Inr False
      \<and> lane_change_lane [[car 2, car 3, empty_cell, empty_cell, empty_cell],
            [empty_cell, empty_cell, empty_cell, empty_cell, empty_cell]] 5 [5, 7] 1 cells1
          = Inr cells2
      \<and> cells2 ! 0 ! 0 = empty_cell \<and> cells2 ! 1 ! 0 = car 2)"
proof -
  let ?X = "[[car 2, car 3, empty_cell, empty_cell, empty_cell],
            [empty_cell, empty_cell, empty_cell, empty_cell, empty_cell]]"
  have ok: "road_ok ?X 5" by (simp add: road_ok_def)
  have mv: "2 \<le> length [5, 7 :: int]" by simp
  have g: "granted ?X (int 5) [5, 7] 0 0 ?X" by code_simp
  have v: "velocity (?X ! 0 ! 0) = 2" by (simp add: car_def)
  have idx: "(0::nat) < 5" by simp
  from no_second_lane_change[OF ok mv idx g]
  show ?thesis using ok g v by fastforce
qed

section \<open>Lane changes and deceleration read the snapshot (claim C4)\<close>

text \<open>
  Claim C4: in the two-lane update a lane change is evaluated only for a car whose velocity
  after acceleration exceeds its gap ahead in its own lane, and the lane-change evaluation
  and the deceleration read gaps and neighbour velocities from the snapshot taken after
  acceleration, so that no decision and no deceleration depends on a lane change committed
  in the same step. On a road of two lanes of \<open>n\<close> cells the three phases before the move
  return roads \<open>snap\<close>, \<open>cells2\<close> and \<open>cells3\<close> such that: a car is granted a change, as
  decided on the snapshot alone, only if its velocity exceeds its gap ahead there; every cell
  of \<open>cells2\<close> is given by the decisions taken on the snapshot alone for the two cells at
  its index; and every car of \<open>cells2\<close> is slowed down to the gap ahead of its cell in the
  snapshot before it dallies.
\<close>

theorem lane_change_and_deceleration_read_snapshot:
  assumes "road_ok cells n" and "2 \<le> length max_vels"
  shows "\<exists>snap cells2 cells3 k'.
      for_each (accelerate_lane max_vels) [0, 1] cells = Inr snap
    \<and> for_each (lane_change_lane snap (int n) max_vels) [0, 1] snap = Inr cells2
    \<and> for_each (decelerate_lane snap (int n) p rnd) [0, 1] (cells2, k) = Inr (cells3, k')
    \<and> update2 cells (int n) max_vels p rnd k
        = bind_err (for_each (move_lane (int n)) [0, 1] cells3) (\<lambda>cells4. Inr (cells4, k'))
    \<and> (\<forall>i<2. \<forall>j<n. granted snap (int n) max_vels i j snap \<longrightarrow>
          (\<exists>d. distance2 snap (snap ! i) j (int n) i i 1 = Inr d \<and> d < velocity (snap ! i ! j)))
    \<and> (\<forall>j<n. cells2 ! 0 ! j = (if granted snap (int n) max_vels 0 j snap then empty_cell
                                else if granted snap (int n) max_vels 1 j snap
                                then car (velocity (snap ! 1 ! j)) else snap ! 0 ! j)
           \<and> cells2 ! 1 ! j = (if granted snap (int n) max_vels 0 j snap
                                then car (velocity (snap ! 0 ! j))
                                else if granted snap (int n) max_vels 1 j snap then empty_cell
                                else snap ! 1 ! j))
    \<and> (\<forall>i<2. \<forall>j<n. slowed snap (int n) p rnd k k' i j (cells2 ! i ! j) (cells3 ! i ! j))"
proof -
  from update2_phases[OF assms, of p rnd k] obtain snap cells2 cells3 k'
    where r: "for_each (accelerate_lane max_vels) [0, 1] cells = Inr snap"
      "for_each (lane_change_lane snap (int n) max_vels) [0, 1] snap = Inr cells2"
      "for_each (decelerate_lane snap (int n) p rnd) [0, 1] (cells2, k) = Inr (cells3, k')"
      "update2 cells (int n) max_vels p rnd k
        = bind_err (for_each (move_lane (int n)) [0, 1] cells3) (\<lambda>cells4. Inr (cells4, k'))"
      "road_ok snap n"
      "\<forall>j<n. cells2 ! 0 ! j = (if granted snap (int n) max_vels 0 j snap then empty_cell
                                else if granted snap (int n) max_vels 1 j snap
                                then car (velocity (snap ! 1 ! j)) else snap ! 0 ! j)
           \<and> cells2 ! 1 ! j = (if granted snap (int n) max_vels 0 j snap
                                then car (velocity (snap ! 0 ! j))
                                else if granted snap (int n) max_vels 1 j snap then empty_cell
                                else snap ! 1 ! j)"
      "\<forall>i<2. \<forall>j<n. slowed snap (int n) p rnd k k' i j (cells2 ! i ! j) (cells3 ! i ! j)"
    by blast
  have "\<exists>d. distance2 snap (snap ! i) j (int n) i i 1 = Inr d \<and> d < velocity (snap ! i ! j)"
    if "i < 2" "j < n" "granted snap (int n) max_vels i j snap" for i j
    using granted_facts[OF r(5) that(1,2) assms(2) refl that(3)] by blast
  then show ?thesis using r(1,2,3,4,6,7) by blast
qed

theorem lane_change_and_deceleration_read_snapshot_witness:
  "road_ok [[empty_cell, empty_cell, empty_cell, empty_cell, empty_cell, empty_cell],
            [car 2, car 3, empty_cell, car 3, empty_cell, empty_cell]] 6
   \<and> 2 \<le> length [5, 5 :: int]
   \<and> for_each (accelerate_lane [5, 5]) [0, 1]
        [[empty_cell, empty_cell, empty_cell, empty_cell, empty_cell, empty_cell],
         [car 2, car 3, empty_cell, car 3, empty_cell, empty_cell]]
      = Inr [[empty_cell, empty_cell, empty_cell, empty_cell, empty_cell, empty_cell],
             [car 3, car 4, empty_cell, car 4, empty_cell, empty_cell]]
   \<and> granted [[empty_cell, empty_cell, empty_cell, empty_cell, empty_cell, empty_cell],
              [car 3, car 4, empty_cell, car 4, empty_cell, empty_cell]] 6 [5, 5] 1 0
             [[empty_cell, empty_cell, empty_cell, empty_cell, empty_cell, empty_cell],
              [car 3, car 4, empty_cell, car 4, empty_cell, empty_cell]]
   \<and> (\<exists>cells2 cells3 k'.
        for_each (lane_change_lane
            [[empty_cell, empty_cell, empty_cell, empty_cell, empty_cell, empty_cell],
             [car 3, car 4, empty_cell, car 4, empty_cell, empty_cell]] 6 [5, 5]) [0, 1]
          [[empty_cell, empty_cell, empty_cell, empty_cell, empty_cell, empty_cell],
           [car 3, car 4, empty_cell, car 4, empty_cell, empty_cell]] = Inr cells2
      \<and> cells2 ! 0 ! 0 = car 3 \<and> cells2 ! 1 ! 0 = empty_cell
      \<and> for_each (decelerate_lane
            [[empty_cell, empty_cell, empty_cell, empty_cell, empty_cell, empty_cell],
             [car 3, car 4, empty_cell, car 4, empty_cell, empty_cell]] 6 0 (\<lambda>k. 1 / 2))
           [0, 1] (cells2, 0) = Inr (cells3, k')
      \<and> slowed [[empty_cell, empty_cell, empty_cell, empty_cell, empty_cell, empty_cell],
                [car 3, car 4, empty_cell, car 4, empty_cell, empty_cell]] 6 0 (\<lambda>k. 1 / 2)
           0 k' 0 0 (car 3) (cells3 ! 0 ! 0))"
proof -
  let ?X = "[[empty_cell, empty_cell, empty_cell, empty_cell, empty_cell, empty_cell],
            [car 2, car 3, empty_cell, car 3, empty_cell, empty_cell]]"
  let ?S = "[[empty_cell, empty_cell, empty_cell, empty_cell, empty_cell, empty_cell],
            [car 3, car 4, empty_cell, car 4, empty_cell, empty_cell]]"
  have ok: "road_ok ?X 6" by (simp add: road_ok_def)
  have mv: "2 \<le> length [5, 5 :: int]" by simp
  have acc: "for_each (accelerate_lane [5, 5]) [0, 1] ?X = Inr ?S" by code_simp
  have g1: "granted ?S (int 6) [5, 5] 1 0 ?S" by code_simp
  have g0: "\<not> granted ?S (int 6) [5, 5] 0 0 ?S" by code_simp
  have v: "velocity (?S ! 1 ! 0) = 3" by (simp add: car_def)
  from lane_change_and_deceleration_read_snapshot[OF ok mv, of 0 "\<lambda>k. 1 / 2" 0]
  obtain snap cells2 cells3 k' where r:
    "for_each (accelerate_lane [5, 5]) [0, 1] ?X = Inr snap"
    "for_each (lane_change_lane snap (int 6) [5, 5]) [0, 1] snap = Inr cells2"
    "for_each (decelerate_lane snap (int 6) 0 (\<lambda>k. 1 / 2)) [0, 1] (cells2, 0) = Inr (cells3, k')"
    "\<forall>j<6. cells2 ! 0 ! j = (if granted snap (int 6) [5, 5] 0 j snap then empty_cell
                                else if granted snap (int 6) [5, 5] 1 j snap
                                then car (velocity (snap ! 1 ! j)) else snap ! 0 ! j)
           \<and> cells2 ! 1 ! j = (if granted snap (int 6) [5, 5] 0 j snap
                                then car (velocity (snap ! 0 ! j))
                                else if granted snap (int 6) [5, 5] 1 j snap then empty_cell
                                else snap ! 1 ! j)"
    "\<forall>i<2. \<forall>j<6. slowed snap (int 6) 0 (\<lambda>k. 1 / 2) 0 k' i j (cells2 ! i ! j) (cells3 ! i ! j)"
    by blast
  have s: "snap = ?S" using r(1) acc by simp
  have c2: "cells2 ! 0 ! 0 = car 3" "cells2 ! 1 ! 0 = empty_cell"
    using r(4) g0 g1 v unfolding s by simp_all
  have sl: "slowed ?S (int 6) 0 (\<lambda>k. 1 / 2) 0 k' 0 0 (car 3) (cells3 ! 0 ! 0)"
    using r(5) c2(1) unfolding s by force
  show ?thesis
    using ok mv acc g1 r(2,3) c2 sl unfolding s by auto
qed

section \<open>Velocity bounds are invariant (claim C6)\<close>

text \<open>
  Claim C6: if before an update step every car has a velocity between 0 and the speed limit
  of its lane and every cell without a car has velocity -1, the same holds after the step,
  in the single-lane and in the two-lane model. For the single-lane update the bounds hold
  of every lane it returns, and it returns one unless the lane holds exactly one car; the
  two-lane update returns a road on every road of two lanes of \<open>n\<close> cells, and the bounds
  hold of both lanes of it.
\<close>

theorem velocity_bounds_preserved:
  assumes "num_cells = int (length cells)" and "lane_ok max_vel cells"
    and "road_ok road n" and "2 \<le> length max_vels"
    and "lane_ok (max_vels ! 0) (road ! 0)" and "lane_ok (max_vels ! 1) (road ! 1)"
  shows "(\<forall>cells' out k'. update cells num_cells max_vel p rnd k = Inr (cells', out, k')
            \<longrightarrow> length cells' = length cells \<and> lane_ok max_vel cells')
    \<and> (num_cars cells \<noteq> 1
          \<longrightarrow> (\<exists>cells' out k'. update cells num_cells max_vel p rnd k = Inr (cells', out, k')))
    \<and> (\<exists>road' k'. update2 road (int n) max_vels p rnd k2 = Inr (road', k')
          \<and> road_ok road' n
          \<and> lane_ok (max_vels ! 0) (road' ! 0) \<and> lane_ok (max_vels ! 1) (road' ! 1))"
proof (intro conjI)
  show "\<forall>cells' out k'. update cells num_cells max_vel p rnd k = Inr (cells', out, k')
            \<longrightarrow> length cells' = length cells \<and> lane_ok max_vel cells'"
  proof (cases "num_cars cells = 1")
    case True
    then show ?thesis using update_one_car[OF assms(1)] by simp
  next
    case False
    from update_result[OF refl assms(2) False, of p rnd k]
    show ?thesis using assms(1) by auto
  qed
  show "num_cars cells \<noteq> 1
      \<longrightarrow> (\<exists>cells' out k'. update cells num_cells max_vel p rnd k = Inr (cells', out, k'))"
    using update_result[OF refl assms(2), of p rnd k] assms(1) by blast
  show "\<exists>road' k'. update2 road (int n) max_vels p rnd k2 = Inr (road', k')
          \<and> road_ok road' n
          \<and> lane_ok (max_vels ! 0) (road' ! 0) \<and> lane_ok (max_vels ! 1) (road' ! 1)"
    by (rule update2_result[OF assms(3,4,5,6)])
qed

theorem velocity_bounds_preserved_witness:
  "lane_ok 5 [car 0, empty_cell, car 5, empty_cell, empty_cell]
   \<and> update [car 0, empty_cell, car 5, empty_cell, empty_cell] 5 5 1 (\<lambda>k. 1 / 2) 0
       = Inr ([car 0, empty_cell, empty_cell, car 1, empty_cell], [], 2)
   \<and> lane_ok 5 [car 0, empty_cell, empty_cell, car 1, empty_cell]
   \<and> road_ok [[car 2, car 3, empty_cell, empty_cell, empty_cell],
              [empty_cell, empty_cell, empty_cell, empty_cell, car 7]] 5
   \<and> lane_ok ([5, 7] ! 0) ([[car 2, car 3, empty_cell, empty_cell, empty_cell],
              [empty_cell, empty_cell, empty_cell, empty_cell, car 7]] ! 0)
   \<and> lane_ok ([5, 7] ! 1) ([[car 2, car 3, empty_cell, empty_cell, empty_cell],
              [empty_cell, empty_cell, empty_cell, empty_cell, car 7]] ! 1)
   \<and> (\<exists>road' k'. update2 [[car 2, car 3, empty_cell, empty_cell, empty_cell],
              [empty_cell, empty_cell, empty_cell, empty_cell, car 7]] 5 [5, 7] 1
              (\<lambda>k. 1 / 2) 0 = Inr (road', k')
         \<and> road_ok road' 5
         \<and> lane_ok ([5, 7] ! 0) (road' ! 0) \<and> lane_ok ([5, 7] ! 1) (road' ! 1))"
proof -
  let ?L = "[car 0, empty_cell, car 5, empty_cell, empty_cell]"
  let ?R = "[[car 2, car 3, empty_cell, empty_cell, empty_cell],
              [empty_cell, empty_cell, empty_cell, empty_cell, car 7]]"
  have len: "(5::int) = int (length ?L)" by simp
  have l: "lane_ok 5 ?L" by code_simp
  have u: "update ?L 5 5 1 (\<lambda>k. 1 / 2) 0
      = Inr ([car 0, empty_cell, empty_cell, car 1, empty_cell], [], 2)" by code_simp
  have ok: "road_ok ?R 5" by (simp add: road_ok_def)
  have mv: "2 \<le> length [5, 7 :: int]" by simp
  have l0: "lane_ok ([5, 7] ! 0) (?R ! 0)" by code_simp
  have l1: "lane_ok ([5, 7] ! 1) (?R ! 1)" by code_simp
  note t = velocity_bounds_preserved[OF len l ok mv l0 l1, of 1 "\<lambda>k. 1 / 2" 0 0]
  from t u have "lane_ok 5 [car 0, empty_cell, empty_cell, car 1, empty_cell]" by blast
  moreover from t have "\<exists>road' k'. update2 ?R (int 5) [5, 7] 1 (\<lambda>k. 1 / 2) 0 = Inr (road', k')
         \<and> road_ok road' 5
         \<and> lane_ok ([5, 7] ! 0) (road' ! 0) \<and> lane_ok ([5, 7] ! 1) (road' ! 1)" by blast
  ultimately show ?thesis using l u ok l0 l1 by simp
qed

section \<open>Destination collisions in the move phase (claim C2)\<close>

text \<open>
  Claim C2: a destination collision in the move phase is surfaced as a fatal inconsistency
  that reports the timestep and the cell, and the colliding car is never silently
  overwritten. The code has no such failure: on the lane of three cells with cars of
  velocities 2 and 1 at the cells 0 and 1, both moves return a lane with one car, the
  single-lane move after printing the cell, the two-lane move without printing.
\<close>

theorem move_collision_not_fatal:
  "move [car 2, car 1, empty_cell] 3 = Inr ([empty_cell, empty_cell, car 1], [Collision_at 2])
   \<and> num_cars [car 2, car 1, empty_cell] = 2
   \<and> num_cars [empty_cell, empty_cell, car 1] = 1
   \<and> move2 [car 2, car 1, empty_cell] 3 = Inr [empty_cell, empty_cell, car 1]"
  by code_simp

text \<open>
  Claim C2 as amended: in the single-lane move phase a destination collision (two cars
  whose target is the same cell \<open>t\<close>, in particular when \<open>t\<close> is not the source cell of
  either) is reported by printing the index of that cell, without the timestep; the move is
  not stopped, and it returns the lane. The theorem needs no condition on the target cell.
\<close>

theorem move_reports_collision:
  assumes len: "length cells = n"
    and ab: "a < b" "b < n" and ca: "state (cells ! a) = 1" and cb: "state (cells ! b) = 1"
    and ta: "(int a + velocity (cells ! a)) mod int n = t"
    and tb: "(int b + velocity (cells ! b)) mod int n = t"
  shows "\<exists>cells' out. move cells (int n) = Inr (cells', out) \<and> length cells' = n
    \<and> Collision_at t \<in> set out"
proof -
  have n: "0 < n" using ab by simp
  have t0: "0 \<le> t" "t < int n" using ta n by auto
  have tn: "nat t < n" using t0 by simp
  define ahead where "ahead \<longleftrightarrow> a < nat t \<and> state (cells ! nat t) = 1"
  define P where "P m u \<longleftrightarrow> (case u of (s, out) \<Rightarrow> length s = n
      \<and> (\<forall>q. m \<le> q \<and> q < n \<and> state (cells ! q) = 1 \<longrightarrow> state (s ! q) = 1)
      \<and> (a < m \<longrightarrow> Collision_at t \<in> set out \<or> (\<not> ahead \<and> state (s ! nat t) = 1))
      \<and> (b < m \<longrightarrow> Collision_at t \<in> set out))"
    for m and u :: "Cell list \<times> message list"
  have P0: "P 0 (cells, [])" by (simp add: P_def len)
  have step: "\<exists>u'. move_step (int n) (m, cells ! m) u = Inr u' \<and> P (Suc m) u'"
    if m: "m < n" and Pu: "P m u" for m u
  proof -
    obtain s out where u: "u = (s, out)" by (cases u)
    have ls: "length s = n"
      and live: "\<And>q. m \<le> q \<Longrightarrow> q < n \<Longrightarrow> state (cells ! q) = 1 \<Longrightarrow> state (s ! q) = 1"
      and pa: "a < m \<Longrightarrow> Collision_at t \<in> set out \<or> (\<not> ahead \<and> state (s ! nat t) = 1)"
      and pb: "b < m \<Longrightarrow> Collision_at t \<in> set out"
      using Pu by (simp_all add: P_def u)
    show ?thesis
    proof (cases "state (cells ! m) = 1")
      case False
      then have ne: "m \<noteq> a" "m \<noteq> b" using ca cb by auto
      have "move_step (int n) (m, cells ! m) u = Inr u" using False by (simp add: move_step_def u)
      moreover have "P (Suc m) u"
        unfolding P_def u using ls live pa pb ne by (auto simp: less_Suc_eq)
      ultimately show ?thesis by blast
    next
      case True
      let ?x = "(int m + velocity (cells ! m)) mod int n"
      have x0: "0 \<le> ?x" "?x < int n" using n by simp_all
      have xn: "nat ?x < n" using x0 by simp
      have idx: "py_index (length s) ?x = Inr (nat ?x)" using x0 ls by (simp add: py_index_ok)
      let ?s' = "(s[m := empty_cell])[nat ?x := car (velocity (cells ! m))]"
      let ?out' = "if state (s ! nat ?x) = 1 \<and> int m \<noteq> ?x then out @ [Collision_at ?x] else out"
      have res: "move_step (int n) (m, cells ! m) u = Inr (?s', ?out')"
        using True n idx by (simp add: move_step_def u py_mod_ok)
      have grow: "Collision_at t \<in> set out \<Longrightarrow> Collision_at t \<in> set ?out'" by simp
      have live': "state (?s' ! q) = 1" if "Suc m \<le> q" "q < n" "state (cells ! q) = 1" for q
      proof (cases "q = nat ?x")
        case True
        then show ?thesis using ls that by (simp add: car_def)
      next
        case False
        then have "?s' ! q = s ! q" using that by simp
        then show ?thesis using live[of q] that by simp
      qed
      have keep: "state (?s' ! nat t) = 1" if "state (s ! nat t) = 1" "m \<noteq> nat t"
      proof (cases "nat t = nat ?x")
        case True
        then show ?thesis using ls tn by (simp add: car_def)
      next
        case False
        then have "?s' ! nat t = s ! nat t" using that(2) by simp
        then show ?thesis using that(1) by simp
      qed
      have at_a: "Collision_at t \<in> set ?out' \<or> (\<not> ahead \<and> state (?s' ! nat t) = 1)"
        if ma: "m = a"
      proof (cases ahead)
        case True
        then have "state (s ! nat t) = 1" "int a \<noteq> t"
          using live[of "nat t"] tn ma unfolding ahead_def by auto
        then show ?thesis using ta ma by simp
      next
        case False
        have "state (?s' ! nat t) = 1" using ta ma ls tn by (auto simp: car_def)
        then show ?thesis using False by simp
      qed
      have between: "Collision_at t \<in> set ?out' \<or> (\<not> ahead \<and> state (?s' ! nat t) = 1)"
        if am: "a < m"
      proof -
        from pa[OF am] show ?thesis
        proof
          assume "Collision_at t \<in> set out"
          then show ?thesis using grow by blast
        next
          assume h: "\<not> ahead \<and> state (s ! nat t) = 1"
          then have "m \<noteq> nat t" using True am unfolding ahead_def by auto
          then show ?thesis using keep h by blast
        qed
      qed
      have at_b: "Collision_at t \<in> set ?out'" if mb: "m = b"
      proof -
        from pa ab(1) mb have "Collision_at t \<in> set out \<or> (\<not> ahead \<and> state (s ! nat t) = 1)"
          by simp
        then show ?thesis
        proof
          assume "Collision_at t \<in> set out"
          then show ?thesis using grow by blast
        next
          assume h: "\<not> ahead \<and> state (s ! nat t) = 1"
          then have "nat t \<noteq> b" using cb ab(1) unfolding ahead_def by auto
          then have "int m \<noteq> t" using mb t0 by auto
          then show ?thesis using h tb mb by simp
        qed
      qed
      have after_b: "Collision_at t \<in> set ?out'" if "b < m"
        using pb[OF that] grow by blast
      have "P (Suc m) (?s', ?out')"
        unfolding P_def prod.case
      proof (intro conjI allI impI)
        show "length ?s' = n" using ls by simp
        show "state (?s' ! q) = 1" if "Suc m \<le> q \<and> q < n \<and> state (cells ! q) = 1" for q
          using live' that by blast
        show "Collision_at t \<in> set ?out' \<or> (\<not> ahead \<and> state (?s' ! nat t) = 1)"
          if "a < Suc m"
          using that at_a between by (cases "m = a") auto
        show "Collision_at t \<in> set ?out'" if "b < Suc m"
          using that at_b after_b by (cases "m = b") auto
      qed
      then show ?thesis using res by blast
    qed
  qed
  have "\<exists>u'. for_each (\<lambda>m. move_step (int n) (m, cells ! m)) [0..<n] (cells, []) = Inr u'
      \<and> P n u'"
    by (rule for_upt_total[where P = P, OF P0 step])
  then obtain s' out where "for_each (\<lambda>m. move_step (int n) (m, cells ! m)) [0..<n]
      (cells, []) = Inr (s', out)" "P n (s', out)" by (metis surj_pair)
  then show ?thesis
    using ab by (simp add: move_def enumerate_upt for_each_map len P_def)
qed

theorem move_reports_collision_witness:
  "length [car 2, car 1, car 1, empty_cell] = 4
   \<and> state ([car 2, car 1, car 1, empty_cell] ! 0) = 1
   \<and> state ([car 2, car 1, car 1, empty_cell] ! 1) = 1
   \<and> (int 0 + velocity ([car 2, car 1, car 1, empty_cell] ! 0)) mod int 4 = 2
   \<and> (int 1 + velocity ([car 2, car 1, car 1, empty_cell] ! 1)) mod int 4 = 2
   \<and> (\<exists>cells' out. move [car 2, car 1, car 1, empty_cell] (int 4) = Inr (cells', out)
         \<and> length cells' = 4 \<and> Collision_at 2 \<in> set out)"
proof -
  let ?L = "[car 2, car 1, car 1, empty_cell]"
  have len: "length ?L = 4" by simp
  have ab: "(0::nat) < 1" "(1::nat) < 4" by simp_all
  have ca: "state (?L ! 0) = 1" and cb: "state (?L ! 1) = 1" by (simp_all add: car_def)
  have ta: "(int 0 + velocity (?L ! 0)) mod int 4 = 2"
    and tb: "(int 1 + velocity (?L ! 1)) mod int 4 = 2" by (simp_all add: car_def)
  from move_reports_collision[OF len ab ca cb ta tb]
  show ?thesis using len ca cb ta tb by blast
qed

end
